theory Spec2Isabelle
  imports Main "HOL-Library.Word"
begin

section \<open>JavaScript values and objects\<close>

text \<open>
  Values that cross the HTTP boundary (parsed response bodies, request bodies, the
  message handed to an error constructor). Numbers are modelled as integers.
  An object is an association list in insertion order with unique keys.
\<close>

datatype js_value =
    JUndefined
  | JNull
  | JBool bool
  | JNum int
  | JStr string
  | JArr "js_value list"
  | JObj "(string \<times> js_value) list"

text \<open>Truthiness, as used by \<open>||\<close>, \<open>if (x)\<close> and \<open>x ? a : b\<close>.\<close>

fun truthy :: "js_value \<Rightarrow> bool" where
  "truthy JUndefined = False"
| "truthy JNull = False"
| "truthy (JBool b) = b"
| "truthy (JNum n) = (n \<noteq> 0)"
| "truthy (JStr s) = (s \<noteq> [])"
| "truthy (JArr xs) = True"
| "truthy (JObj kvs) = True"

text \<open>\<open>a || b\<close>\<close>

definition js_or :: "js_value \<Rightarrow> js_value \<Rightarrow> js_value" where
  "js_or a b = (if truthy a then a else b)"

text \<open>\<open>v?.k\<close> for a key that no prototype defines: only an object can answer.\<close>

fun opt_prop :: "js_value \<Rightarrow> string \<Rightarrow> js_value" where
  "opt_prop (JObj kvs) k = (case map_of kvs k of None \<Rightarrow> JUndefined | Some v \<Rightarrow> v)"
| "opt_prop v k = JUndefined"

text \<open>An optional string (\<open>string | undefined | null\<close>) is truthy when present and non-empty.\<close>

fun truthy_str :: "string option \<Rightarrow> bool" where
  "truthy_str None = False"
| "truthy_str (Some s) = (s \<noteq> [])"

text \<open>
  Property assignment \<open>o[k] = v\<close> on an object or \<open>m.set(k, v)\<close> on a \<open>Map\<close>: an
  existing key keeps its position, a new key goes last.
\<close>

fun obj_set :: "('k \<times> 'v) list \<Rightarrow> 'k \<Rightarrow> 'v \<Rightarrow> ('k \<times> 'v) list" where
  "obj_set [] k v = [(k, v)]"
| "obj_set ((k', v') # kvs) k v =
     (if k' = k then (k, v) # kvs else (k', v') # obj_set kvs k v)"

text \<open>Object spread \<open>{...target, ...src}\<close>: the entries of \<open>src\<close> are assigned in order.\<close>

definition obj_spread :: "('k \<times> 'v) list \<Rightarrow> ('k \<times> 'v) list \<Rightarrow> ('k \<times> 'v) list" where
  "obj_spread target src = fold (\<lambda>(k, v) acc. obj_set acc k v) src target"

text \<open>\<open>s.endsWith(''/'')\<close>, \<open>s.startsWith(''/'')\<close>, \<open>s.slice(0, -1)\<close>, \<open>s.includes(t)\<close>.\<close>

definition endsWith_slash :: "string \<Rightarrow> bool" where
  "endsWith_slash s = (s \<noteq> [] \<and> last s = CHR ''/'')"

definition startsWith_slash :: "string \<Rightarrow> bool" where
  "startsWith_slash s = (case s of [] \<Rightarrow> False | c # _ \<Rightarrow> c = CHR ''/'')"

definition slice_0_minus1 :: "string \<Rightarrow> string" where
  "slice_0_minus1 s = butlast s"

fun str_includes :: "string \<Rightarrow> string \<Rightarrow> bool" where
  "str_includes [] t = (t = [])"
| "str_includes (c # cs) t = (take (length t) (c # cs) = t \<or> str_includes cs t)"

text \<open>Decimal rendering of an integer, as \<open>String(n)\<close> and template literals produce it.\<close>

fun show_nat :: "nat \<Rightarrow> string" where
  "show_nat n =
     (if n < 10 then [''0123456789'' ! n]
      else show_nat (n div 10) @ [''0123456789'' ! (n mod 10)])"

definition show_int :: "int \<Rightarrow> string" where
  "show_int i = (if i < 0 then CHR ''-'' # show_nat (nat (- i)) else show_nat (nat i))"

section \<open>The resilient HTTP client (services/httpClient.ts)\<close>

datatype HttpMethod = GET | POST | PUT | PATCH | DELETE

datatype trpc_code =
  BAD_REQUEST | UNAUTHORIZED | FORBIDDEN | NOT_FOUND | TIMEOUT | INTERNAL_SERVER_ERROR

text \<open>
  What the platform (\<open>fetch\<close>, \<open>response.json()\<close>, \<open>new URL\<close>) can throw: an
  \<open>Error\<close> instance with its \<open>name\<close> and \<open>message\<close>, or some other non-nullish value.
\<close>

datatype thrown = ErrorObj string string | NonError js_value

fun thrown_name :: "thrown \<Rightarrow> js_value" where
  "thrown_name (ErrorObj n m) = JStr n"
| "thrown_name (NonError v) = opt_prop v ''name''"

datatype cause = NoCause | HttpCause nat js_value | ZodCause string | ThrownCause thrown

text \<open>
  A \<open>TRPCError\<close>, by the three arguments that the code hands to its constructor. The
  constructor belongs to the library; \<open>message\<close> is the value it is given, before any
  coercion of its own.
\<close>

record trpc_error =
  code :: trpc_code
  message :: js_value
  cause :: cause

text \<open>Inside \<open>doFetch\<close>'s \<open>try\<close> block an exception is a \<open>TRPCError\<close> or a platform one.\<close>

datatype exn = TRPCError trpc_error | Thrown thrown

text \<open>
  A query value is a string, a number or a boolean. A number that is an integer in the
  range from \<open>-2^53\<close> to \<open>2^53 - 1\<close> is held by value: every such integer is a double,
  \<open>String\<close> renders it with its decimal digits, and a signed 54-bit word holds exactly
  this range. Any other number (a fraction, a larger magnitude, \<open>NaN\<close>, an infinity) is
  held as the text that \<open>String\<close> renders for it, which is the platform's business.
\<close>

datatype query_value = QStr string | QNum "54 word" | QNumText string | QBool bool

type_synonym headers = "(string \<times> string) list"

text \<open>
  \<open>RequestOptions\<close>. An absent optional field is \<open>None\<close> (\<open>JUndefined\<close> for the body,
  \<open>None\<close> for a query value that is \<open>undefined\<close>). The field \<open>method\<close> is written
  \<open>http_method\<close>.
\<close>

record RequestOptions =
  path :: string
  http_method :: "HttpMethod option"
  query :: "(string \<times> query_value option) list option"
  body :: js_value
  headers :: "headers option"
  timeoutMs :: "int option"
  retries :: "int option"
  token :: "string option"
  traceId :: "string option"

text \<open>
  \<open>PartialHttpClientConfig\<close> is \<open>Partial<HttpClientConfig>\<close>, the type of the
  overrides; \<open>HttpClient\<close> is the closure that
  \<open>createHttpClient\<close> returns, after the destructuring defaults are applied. A client is
  immutable, so the object is its field values together with an allocation number
  \<open>ident\<close> that stands for its reference identity.
\<close>

record HttpClientConfig =
  cfg_baseUrl :: string
  cfg_defaultHeaders :: "headers option"
  cfg_timeoutMs :: "int option"
  cfg_retries :: "int option"

record PartialHttpClientConfig =
  ovr_baseUrl :: "string option"
  ovr_defaultHeaders :: "headers option"
  ovr_timeoutMs :: "int option"
  ovr_retries :: "int option"

record HttpClient =
  ident :: nat
  baseUrl :: string
  defaultHeaders :: headers
  client_timeoutMs :: int
  client_retries :: int

text \<open>
  The platform's \<open>URL\<close> object: the part before the query as parsed and normalised by
  the constructor, and the ordered search parameters. The constructor itself belongs to
  the platform and is a parameter of the model; it throws on a string that is not an
  absolute URL.
\<close>

record url =
  href :: string
  searchParams :: "(string \<times> string) list"

type_synonym url_constructor = "string \<Rightarrow> thrown + url"

text \<open>The constructor on a string that is already a normalised URL without a query.\<close>

definition plain_URL :: url_constructor where
  "plain_URL s = Inr \<lparr>href = s, searchParams = []\<rparr>"

text \<open>
  \<open>url.searchParams.set(key, value)\<close>: the first entry of that name takes the value
  and the later ones are deleted; without such an entry the pair is appended.
\<close>

fun searchParams_set :: "(string \<times> string) list \<Rightarrow> string \<Rightarrow> string \<Rightarrow> (string \<times> string) list" where
  "searchParams_set [] k v = [(k, v)]"
| "searchParams_set ((k', v') # ps) k v =
     (if k' = k then (k, v) # filter (\<lambda>p. fst p \<noteq> k) ps
      else (k', v') # searchParams_set ps k v)"

text \<open>
  \<open>url.toString()\<close>: the search parameters in the \<open>application/x-www-form-urlencoded\<close>
  serialisation, byte by byte.
\<close>

definition hex_digit :: "nat \<Rightarrow> char" where
  "hex_digit d = ''0123456789ABCDEF'' ! d"

definition form_safe :: "char \<Rightarrow> bool" where
  "form_safe c =
     (c \<in> set ''abcdefghijklmnopqrstuvwxyzABCDEFGHIJKLMNOPQRSTUVWXYZ0123456789*-._'')"

definition form_encode_char :: "char \<Rightarrow> string" where
  "form_encode_char c =
     (if form_safe c then [c]
      else if c = CHR '' '' then ''+''
      else [CHR ''%'', hex_digit (of_char c div 16), hex_digit (of_char c mod 16)])"

definition form_encode :: "string \<Rightarrow> string" where
  "form_encode s = concat (map form_encode_char s)"

fun join_amp :: "string list \<Rightarrow> string" where
  "join_amp [] = []"
| "join_amp [p] = p"
| "join_amp (p # q # ps) = p @ ''&'' @ join_amp (q # ps)"

definition url_toString :: "url \<Rightarrow> string" where
  "url_toString u =
     (if searchParams u = [] then href u
      else href u @ ''?'' @
           join_amp (map (\<lambda>(k, v). form_encode k @ ''='' @ form_encode v) (searchParams u)))"

text \<open>\<open>String(value)\<close> on a query value.\<close>

fun String_of :: "query_value \<Rightarrow> string" where
  "String_of (QStr s) = s"
| "String_of (QNum n) = show_int (sint n)"
| "String_of (QNumText t) = t"
| "String_of (QBool b) = (if b then ''true'' else ''false'')"

fun mapHttpStatusToTRPCCode :: "nat \<Rightarrow> trpc_code" where
  "mapHttpStatusToTRPCCode status =
     (if status = 400 then BAD_REQUEST
      else if status = 401 then UNAUTHORIZED
      else if status = 403 then FORBIDDEN
      else if status = 404 then NOT_FOUND
      else if status = 408 \<or> status = 504 then TIMEOUT
      else INTERNAL_SERVER_ERROR)"

text \<open>The body of \<open>query.forEach\<close> in \<open>buildUrl\<close>.\<close>

definition set_query_entry :: "string \<times> query_value option \<Rightarrow> url \<Rightarrow> url" where
  "set_query_entry e u =
     (case snd e of
        None \<Rightarrow> u
      | Some v \<Rightarrow> u\<lparr>searchParams := searchParams_set (searchParams u) (fst e) (String_of v)\<rparr>)"

text \<open>The argument of \<open>new URL\<close> in \<open>buildUrl\<close>: the template \<open>${base}${normalizedPath}\<close>.\<close>

definition join_url :: "string \<Rightarrow> string \<Rightarrow> string" where
  "join_url base_url p =
     (let base = (if endsWith_slash base_url then slice_0_minus1 base_url else base_url);
          normalizedPath = (if startsWith_slash p then p else ''/'' @ p)
      in base @ normalizedPath)"

definition buildUrl ::
  "url_constructor \<Rightarrow> string \<Rightarrow> string \<Rightarrow> (string \<times> query_value option) list option
     \<Rightarrow> thrown + string" where
  "buildUrl new_URL base_url p q =
     (case new_URL (join_url base_url p) of
        Inl e \<Rightarrow> Inl e
      | Inr u \<Rightarrow>
          Inr (url_toString
                 (case q of None \<Rightarrow> u | Some entries \<Rightarrow> fold set_query_entry entries u)))"

section \<open>A single attempt: \<open>doFetch\<close>\<close>

text \<open>
  What \<open>fetch\<close> receives: the URL, the method, the composed headers, the body (the value
  that \<open>JSON.stringify\<close> serialises, absent when the body is falsy) and the delay after
  which the abort signal fires.
\<close>

record fetch_call =
  call_url :: string
  call_method :: HttpMethod
  call_headers :: headers
  call_body :: "js_value option"
  call_deadline :: int

text \<open>
  A \<open>Response\<close>: its status, its \<open>content-type\<close> header, and what \<open>response.json()\<close>
  and \<open>response.text()\<close> resolve to or reject with.
\<close>

record response =
  status :: nat
  content_type :: "string option"
  json :: "thrown + js_value"
  text_body :: "thrown + string"

definition ok :: "response \<Rightarrow> bool" where
  "ok r = (200 \<le> status r \<and> status r \<le> 299)"

text \<open>A response schema: \<open>safeParse\<close> yields the parsed data or a validation error.\<close>

type_synonym schema = "js_value \<Rightarrow> string + js_value"

text \<open>The header object of one attempt, built by a literal with two spreads and three assignments.\<close>

definition requestHeaders :: "headers \<Rightarrow> headers option \<Rightarrow> string option \<Rightarrow> string option \<Rightarrow> headers" where
  "requestHeaders default_headers per_call tok trace =
     (let h0 = [(''Content-Type'', ''application/json''), (''Accept'', ''application/json'')];
          h1 = obj_spread h0 default_headers;
          h2 = (case per_call of None \<Rightarrow> h1 | Some hs \<Rightarrow> obj_spread h1 hs);
          h3 = (case tok of
                  None \<Rightarrow> h2
                | Some t \<Rightarrow> if t \<noteq> [] then obj_set h2 ''Authorization'' (''Bearer '' @ t) else h2);
          h4 = (case trace of
                  None \<Rightarrow> h3
                | Some t \<Rightarrow>
                    if t \<noteq> [] then obj_set (obj_set h3 ''X-Trace-Id'' t) ''X-Request-Id'' t
                    else h3)
      in h4)"

definition errorMessage :: "js_value \<Rightarrow> nat \<Rightarrow> js_value" where
  "errorMessage raw st =
     (case raw of
        JStr s \<Rightarrow> JStr s
      | _ \<Rightarrow> js_or (opt_prop raw ''message'')
                 (js_or (opt_prop raw ''error'')
                    (JStr (''Request failed with status '' @ show_nat st))))"

text \<open>
  The \<open>try\<close> block, in three parts: reading the body (\<open>raw\<close>), the rest of the block
  once \<open>fetch\<close> has resolved, and the block itself. The first component is what the block returns or throws, the second
  the call handed to \<open>fetch\<close>, if \<open>buildUrl\<close> got that far. The argument \<open>outcome\<close>
  is what \<open>fetch\<close> resolves to or rejects with; an expired deadline rejects it (or the
  reading of the body) with an error named \<open>AbortError\<close>.
\<close>

definition read_raw :: "response \<Rightarrow> thrown + js_value" where
  "read_raw resp =
     (let contentType = (case content_type resp of None \<Rightarrow> [] | Some c \<Rightarrow> c);
          isJson = str_includes contentType ''application/json''
      in if isJson then json resp
         else (case text_body resp of Inl e \<Rightarrow> Inl e | Inr t \<Rightarrow> Inr (JStr t)))"

definition doFetch_response :: "schema option \<Rightarrow> response \<Rightarrow> exn + js_value" where
  "doFetch_response sch resp =
     (case read_raw resp of
           Inl e \<Rightarrow> Inl (Thrown e)
         | Inr raw \<Rightarrow>
             if \<not> ok resp then
               Inl (TRPCError
                      \<lparr>code = mapHttpStatusToTRPCCode (status resp),
                       message = errorMessage raw (status resp),
                       cause = HttpCause (status resp) raw\<rparr>)
             else
               (case sch of
                  None \<Rightarrow> Inr raw
                | Some validate \<Rightarrow>
                    (case validate raw of
                       Inl zerr \<Rightarrow>
                         Inl (TRPCError
                                \<lparr>code = INTERNAL_SERVER_ERROR,
                                 message = JStr ''Response validation failed'',
                                 cause = ZodCause zerr\<rparr>)
                     | Inr data \<Rightarrow> Inr data)))"

definition doFetch_try ::
  "url_constructor \<Rightarrow> HttpClient \<Rightarrow> RequestOptions \<Rightarrow> schema option \<Rightarrow> (thrown + response)
     \<Rightarrow> (exn + js_value) \<times> fetch_call option" where
  "doFetch_try new_URL cl opts sch outcome =
     (let m = (case http_method opts of None \<Rightarrow> GET | Some m' \<Rightarrow> m');
          deadline = (case timeoutMs opts of None \<Rightarrow> client_timeoutMs cl | Some t \<Rightarrow> t);
          hs = requestHeaders (defaultHeaders cl) (headers opts) (token opts) (traceId opts)
      in case buildUrl new_URL (baseUrl cl) (path opts) (query opts) of
           Inl e \<Rightarrow> (Inl (Thrown e), None)
         | Inr u \<Rightarrow>
             (case outcome of
                Inl e \<Rightarrow> Inl (Thrown e)
              | Inr resp \<Rightarrow> doFetch_response sch resp,
              Some \<lparr>call_url = u, call_method = m, call_headers = hs,
                    call_body = (if truthy (body opts) then Some (body opts) else None),
                    call_deadline = deadline\<rparr>))"

text \<open>The \<open>catch\<close> block.\<close>

fun doFetch_catch :: "exn \<Rightarrow> trpc_error" where
  "doFetch_catch (TRPCError e) = e"
| "doFetch_catch (Thrown t) =
     (if thrown_name t = JStr ''AbortError''
      then \<lparr>code = TIMEOUT, message = JStr ''Request timed out'', cause = NoCause\<rparr>
      else \<lparr>code = INTERNAL_SERVER_ERROR,
            message = (case t of ErrorObj n m \<Rightarrow> JStr m
                               | NonError v \<Rightarrow> JStr ''Unknown error occurred''),
            cause = ThrownCause t\<rparr>)"

definition doFetch ::
  "url_constructor \<Rightarrow> HttpClient \<Rightarrow> RequestOptions \<Rightarrow> schema option \<Rightarrow> (thrown + response)
     \<Rightarrow> (trpc_error + js_value) \<times> fetch_call option" where
  "doFetch new_URL cl opts sch outcome =
     (case doFetch_try new_URL cl opts sch outcome of
        (Inl e, c) \<Rightarrow> (Inl (doFetch_catch e), c)
      | (Inr v, c) \<Rightarrow> (Inr v, c))"

section \<open>The retry loop: \<open>request\<close>\<close>

text \<open>
  The observable steps of one \<open>request\<close>, in the order in which they are awaited: an
  attempt (its number and the call it handed to \<open>fetch\<close>) or a back-off sleep.
\<close>

datatype event = Attempt int "fetch_call option" | Sleep int

text \<open>
  The platform as one \<open>request\<close> sees it: the URL constructor and, for each attempt
  number, what its \<open>fetch\<close> resolves to or rejects with.
\<close>

record platform =
  new_URL :: url_constructor
  fetch :: "int \<Rightarrow> thrown + response"

definition isIdempotent :: "HttpMethod option \<Rightarrow> bool" where
  "isIdempotent m = ((case m of None \<Rightarrow> GET | Some m' \<Rightarrow> m') \<in> set [GET, PUT, DELETE])"

definition isRetryable :: "trpc_error \<Rightarrow> bool" where
  "isRetryable e = (code e \<in> set [TIMEOUT, INTERNAL_SERVER_ERROR])"

definition backoffMs :: "int \<Rightarrow> int" where
  "backoffMs attempt = min (100 * 2 ^ nat (attempt - 1)) 2000"

text \<open>
  The \<open>for\<close> loop, from the state it has when the condition \<open>attempt <= maxAttempts\<close>
  is tested. \<open>lastError\<close> is \<open>None\<close> while it still holds \<open>undefined\<close>. Everything that
  \<open>doFetch\<close> throws is a \<open>TRPCError\<close>, so the \<open>instanceof\<close> test of \<open>isRetryable\<close>
  holds.
\<close>

function request_loop ::
  "platform \<Rightarrow> HttpClient \<Rightarrow> RequestOptions \<Rightarrow> schema option \<Rightarrow> int \<Rightarrow> int
     \<Rightarrow> trpc_error option \<Rightarrow> event list \<Rightarrow> (trpc_error option + js_value) \<times> event list" where
  "request_loop pf cl opts sch maxAttempts attempt lastError tr =
     (if attempt \<le> maxAttempts then
        (case doFetch (new_URL pf) cl opts sch (fetch pf attempt) of
           (Inr v, c) \<Rightarrow> (Inr v, tr @ [Attempt attempt c])
         | (Inl error, c) \<Rightarrow>
            (if attempt = maxAttempts \<or> \<not> isRetryable error \<or> \<not> isIdempotent (http_method opts)
             then (Inl (Some error), tr @ [Attempt attempt c])
             else request_loop pf cl opts sch maxAttempts (attempt + 1) (Some error)
                    (tr @ [Attempt attempt c, Sleep (backoffMs attempt)])))
      else (Inl lastError, tr))"
  by pat_completeness auto
termination
  by (relation "measure (\<lambda>(pf, cl, opts, sch, maxAttempts, attempt, lastError, tr).
                            nat (maxAttempts + 1 - attempt))") auto

definition request ::
  "platform \<Rightarrow> HttpClient \<Rightarrow> RequestOptions \<Rightarrow> schema option
     \<Rightarrow> (trpc_error option + js_value) \<times> event list" where
  "request pf cl opts sch =
     (let maxAttempts = (case retries opts of None \<Rightarrow> client_retries cl | Some r \<Rightarrow> r) + 1
      in request_loop pf cl opts sch maxAttempts 1 None [])"

text \<open>
  The convenience wrappers: \<open>get\<close> is \<open>request({...options, path, method: 'GET'}, schema)\<close>,
  and likewise \<open>delete\<close>; \<open>post\<close>, \<open>put\<close> and \<open>patch\<close> also set the body.
\<close>

definition client_get ::
  "platform \<Rightarrow> HttpClient \<Rightarrow> string \<Rightarrow> RequestOptions \<Rightarrow> schema option
     \<Rightarrow> (trpc_error option + js_value) \<times> event list" where
  "client_get pf cl p options sch =
     request pf cl (options\<lparr>path := p, http_method := Some GET\<rparr>) sch"

definition client_post ::
  "platform \<Rightarrow> HttpClient \<Rightarrow> string \<Rightarrow> js_value \<Rightarrow> RequestOptions \<Rightarrow> schema option
     \<Rightarrow> (trpc_error option + js_value) \<times> event list" where
  "client_post pf cl p b options sch =
     request pf cl (options\<lparr>path := p, http_method := Some POST, body := b\<rparr>) sch"

definition client_put ::
  "platform \<Rightarrow> HttpClient \<Rightarrow> string \<Rightarrow> js_value \<Rightarrow> RequestOptions \<Rightarrow> schema option
     \<Rightarrow> (trpc_error option + js_value) \<times> event list" where
  "client_put pf cl p b options sch =
     request pf cl (options\<lparr>path := p, http_method := Some PUT, body := b\<rparr>) sch"

definition client_patch ::
  "platform \<Rightarrow> HttpClient \<Rightarrow> string \<Rightarrow> js_value \<Rightarrow> RequestOptions \<Rightarrow> schema option
     \<Rightarrow> (trpc_error option + js_value) \<times> event list" where
  "client_patch pf cl p b options sch =
     request pf cl (options\<lparr>path := p, http_method := Some PATCH, body := b\<rparr>) sch"

definition client_delete ::
  "platform \<Rightarrow> HttpClient \<Rightarrow> string \<Rightarrow> RequestOptions \<Rightarrow> schema option
     \<Rightarrow> (trpc_error option + js_value) \<times> event list" where
  "client_delete pf cl p options sch =
     request pf cl (options\<lparr>path := p, http_method := Some DELETE\<rparr>) sch"

text \<open>An options object with no field set.\<close>

definition no_options :: RequestOptions where
  "no_options =
     \<lparr>path = [], http_method = None, query = None, body = JUndefined, headers = None,
      timeoutMs = None, retries = None, token = None, traceId = None\<rparr>"

text \<open>
  \<open>createHttpClient\<close>: the destructuring defaults of the configuration; \<open>fresh\<close> is the
  allocation number of the new object.
\<close>

definition createHttpClient :: "nat \<Rightarrow> HttpClientConfig \<Rightarrow> HttpClient" where
  "createHttpClient fresh config =
     \<lparr>ident = fresh,
      baseUrl = cfg_baseUrl config,
      defaultHeaders = (case cfg_defaultHeaders config of None \<Rightarrow> [] | Some hs \<Rightarrow> hs),
      client_timeoutMs = (case cfg_timeoutMs config of None \<Rightarrow> 10000 | Some t \<Rightarrow> t),
      client_retries = (case cfg_retries config of None \<Rightarrow> 2 | Some r \<Rightarrow> r)\<rparr>"

section \<open>The service registry (services/serviceRegistry.ts)\<close>

datatype ServiceKind = python | bun | java | nestjs | node | go

record ServiceConfig =
  name :: ServiceKind
  service_baseUrl :: string
  healthPath :: "string option"
  priority :: "int option"

fun kind_string :: "ServiceKind \<Rightarrow> string" where
  "kind_string python = ''python''"
| "kind_string bun = ''bun''"
| "kind_string java = ''java''"
| "kind_string nestjs = ''nestjs''"
| "kind_string node = ''node''"
| "kind_string go = ''go''"

fun ENV_VAR_MAP :: "ServiceKind \<Rightarrow> string" where
  "ENV_VAR_MAP python = ''HALOLIGHT_API_PYTHON_URL''"
| "ENV_VAR_MAP bun = ''HALOLIGHT_API_BUN_URL''"
| "ENV_VAR_MAP java = ''HALOLIGHT_API_JAVA_URL''"
| "ENV_VAR_MAP nestjs = ''HALOLIGHT_API_NESTJS_URL''"
| "ENV_VAR_MAP node = ''HALOLIGHT_API_NODE_URL''"
| "ENV_VAR_MAP go = ''HALOLIGHT_API_GO_URL''"

fun DEFAULT_PRIORITY :: "ServiceKind \<Rightarrow> int" where
  "DEFAULT_PRIORITY nestjs = 1"
| "DEFAULT_PRIORITY python = 2"
| "DEFAULT_PRIORITY bun = 3"
| "DEFAULT_PRIORITY java = 4"
| "DEFAULT_PRIORITY node = 5"
| "DEFAULT_PRIORITY go = 6"

definition DEFAULT_HEALTH_PATH :: string where
  "DEFAULT_HEALTH_PATH = ''/health''"

text \<open>\<open>process.env\<close>, and the keys of \<open>ENV_VAR_MAP\<close> in the order of the literal.\<close>

type_synonym env = "string \<Rightarrow> string option"

definition ENV_VAR_MAP_keys :: "ServiceKind list" where
  "ENV_VAR_MAP_keys = [python, bun, java, nestjs, node, go]"

definition load_one :: "env \<Rightarrow> ServiceKind \<Rightarrow> (ServiceKind \<times> ServiceConfig) list
    \<Rightarrow> (ServiceKind \<times> ServiceConfig) list" where
  "load_one e kind svcs =
     (case e (ENV_VAR_MAP kind) of
        None \<Rightarrow> svcs
      | Some b \<Rightarrow>
          if b \<noteq> [] then
            obj_set svcs kind
              \<lparr>name = kind,
               service_baseUrl = (if endsWith_slash b then slice_0_minus1 b else b),
               healthPath = Some DEFAULT_HEALTH_PATH,
               priority = Some (DEFAULT_PRIORITY kind)\<rparr>
          else svcs)"

definition loadServices :: "env \<Rightarrow> (ServiceKind \<times> ServiceConfig) list" where
  "loadServices e = fold (load_one e) ENV_VAR_MAP_keys []"

text \<open>
  The registry object together with the module-level \<open>clientCache\<close>, and the number of
  client objects created so far (the next allocation number).
\<close>

record registry =
  services :: "(ServiceKind \<times> ServiceConfig) list"
  defaultService :: "ServiceKind option"
  clientCache :: "(ServiceKind \<times> HttpClient) list"
  allocated :: nat

text \<open>\<open>a.priority ?? 99\<close>; \<open>Array.prototype.sort\<close> is a stable sort.\<close>

definition priority_or_99 :: "ServiceConfig \<Rightarrow> int" where
  "priority_or_99 c = (case priority c of None \<Rightarrow> 99 | Some p \<Rightarrow> p)"

definition findDefaultService :: "(ServiceKind \<times> ServiceConfig) list \<Rightarrow> ServiceKind option" where
  "findDefaultService svcs =
     (if length svcs = 0 then None
      else (case sort_key priority_or_99 (map snd svcs) of
              [] \<Rightarrow> None
            | c # _ \<Rightarrow> Some (name c)))"

text \<open>The constructor, run once when the module is loaded, and \<open>reload\<close>.\<close>

definition new_ServiceRegistry :: "env \<Rightarrow> registry" where
  "new_ServiceRegistry e =
     \<lparr>services = loadServices e, defaultService = findDefaultService (loadServices e),
      clientCache = [], allocated = 0\<rparr>"

definition reload :: "env \<Rightarrow> registry \<Rightarrow> registry" where
  "reload e s =
     s\<lparr>clientCache := [], services := loadServices e,
       defaultService := findDefaultService (loadServices e)\<rparr>"

definition getServices :: "registry \<Rightarrow> ServiceConfig list" where
  "getServices s = map snd (services s)"

definition hasService :: "registry \<Rightarrow> ServiceKind \<Rightarrow> bool" where
  "hasService s k = (map_of (services s) k \<noteq> None)"

definition getServiceConfig :: "registry \<Rightarrow> ServiceKind \<Rightarrow> ServiceConfig option" where
  "getServiceConfig s k = map_of (services s) k"

definition getDefaultServiceName :: "registry \<Rightarrow> ServiceKind option" where
  "getDefaultServiceName s = defaultService s"

text \<open>A plain \<open>Error\<close> with its message.\<close>

datatype js_error = Error string

text \<open>\<open>{baseUrl: service.baseUrl, timeoutMs: 10000, retries: 2, ...options}\<close>\<close>

definition client_config :: "ServiceConfig \<Rightarrow> PartialHttpClientConfig option \<Rightarrow> HttpClientConfig" where
  "client_config service options =
     (case options of
        None \<Rightarrow>
          \<lparr>cfg_baseUrl = service_baseUrl service, cfg_defaultHeaders = None,
           cfg_timeoutMs = Some 10000, cfg_retries = Some 2\<rparr>
      | Some ov \<Rightarrow>
          \<lparr>cfg_baseUrl = (case ovr_baseUrl ov of None \<Rightarrow> service_baseUrl service | Some b \<Rightarrow> b),
           cfg_defaultHeaders = ovr_defaultHeaders ov,
           cfg_timeoutMs = Some (case ovr_timeoutMs ov of None \<Rightarrow> 10000 | Some t \<Rightarrow> t),
           cfg_retries = Some (case ovr_retries ov of None \<Rightarrow> 2 | Some r \<Rightarrow> r)\<rparr>)"

definition getClient ::
  "ServiceKind \<Rightarrow> PartialHttpClientConfig option \<Rightarrow> registry \<Rightarrow> (js_error + HttpClient) \<times> registry" where
  "getClient nm options s =
     (case (map_of (clientCache s) nm, options) of
        (Some cached, None) \<Rightarrow> (Inr cached, s)
      | _ \<Rightarrow>
         (case map_of (services s) nm of
            None \<Rightarrow>
              (Inl (Error (''Service \"'' @ kind_string nm @ ''\" is not configured. Set ''
                           @ ENV_VAR_MAP nm @ '' environment variable.'')), s)
          | Some service \<Rightarrow>
              (let client = createHttpClient (allocated s) (client_config service options);
                   s1 = s\<lparr>allocated := Suc (allocated s)\<rparr>
               in if options = None
                  then (Inr client, s1\<lparr>clientCache := obj_set (clientCache s1) nm client\<rparr>)
                  else (Inr client, s1))))"

definition getDefaultClient ::
  "PartialHttpClientConfig option \<Rightarrow> registry \<Rightarrow> (js_error + HttpClient) \<times> registry" where
  "getDefaultClient options s =
     (case defaultService s of
        None \<Rightarrow>
          (Inl (Error ''No backend services configured. Set at least one HALOLIGHT_API_*_URL.''), s)
      | Some d \<Rightarrow> getClient d options s)"

text \<open>
  \<open>checkHealth\<close>. What the \<open>try\<close> block can throw is the \<open>Error\<close> of \<open>getClient\<close> or
  the value with which \<open>client.get\<close> rejects. \<open>start\<close> and \<open>finish\<close> are the two
  readings of \<open>Date.now()\<close>.
\<close>

datatype caught = Plain js_error | Rejected "trpc_error option"

record health =
  healthy :: bool
  latencyMs :: int

definition checkHealth_try ::
  "platform \<Rightarrow> ServiceKind \<Rightarrow> ServiceConfig \<Rightarrow> registry
     \<Rightarrow> (caught + js_value) \<times> registry \<times> event list" where
  "checkHealth_try pf nm service s =
     (case getClient nm None s of
        (Inl e, s') \<Rightarrow> (Inl (Plain e), s', [])
      | (Inr client, s') \<Rightarrow>
         (case client_get pf client
                 (case healthPath service of
                    None \<Rightarrow> DEFAULT_HEALTH_PATH
                  | Some hp \<Rightarrow> if hp \<noteq> [] then hp else DEFAULT_HEALTH_PATH)
                 (no_options\<lparr>timeoutMs := Some 3000, retries := Some 0\<rparr>) None of
            (Inl e, tr) \<Rightarrow> (Inl (Rejected e), s', tr)
          | (Inr v, tr) \<Rightarrow> (Inr v, s', tr)))"

definition checkHealth ::
  "platform \<Rightarrow> int \<Rightarrow> int \<Rightarrow> ServiceKind \<Rightarrow> registry \<Rightarrow> (caught + health) \<times> registry \<times> event list" where
  "checkHealth pf start finish nm s =
     (case map_of (services s) nm of
        None \<Rightarrow> (Inr \<lparr>healthy = False, latencyMs = - 1\<rparr>, s, [])
      | Some service \<Rightarrow>
         (case checkHealth_try pf nm service s of
            (Inr v, s', tr) \<Rightarrow> (Inr \<lparr>healthy = True, latencyMs = finish - start\<rparr>, s', tr)
          | (Inl e, s', tr) \<Rightarrow> (Inr \<lparr>healthy = False, latencyMs = finish - start\<rparr>, s', tr)))"

text \<open>
  \<open>checkAllHealth\<close>. Every \<open>checkHealth\<close> runs up to its first \<open>await\<close> when it is
  called, so the calls to \<open>getClient\<close> happen in the order of the keys and the registry
  is threaded through in that order; the requests then overlap in time, each against its
  own platform and with its own clock readings. The result object is modelled up to the
  order of its keys.
\<close>

definition checkAllHealth_step ::
  "(ServiceKind \<Rightarrow> platform) \<Rightarrow> (ServiceKind \<Rightarrow> int) \<Rightarrow> (ServiceKind \<Rightarrow> int) \<Rightarrow> ServiceKind
     \<Rightarrow> (caught + (ServiceKind \<times> health) list) \<times> registry
     \<Rightarrow> (caught + (ServiceKind \<times> health) list) \<times> registry" where
  "checkAllHealth_step pf start finish nm acc =
     (case checkHealth (pf nm) (start nm) (finish nm) nm (snd acc) of
        (r, s', tr) \<Rightarrow>
          ((case fst acc of
              Inl e \<Rightarrow> Inl e
            | Inr results \<Rightarrow>
                (case r of Inl e \<Rightarrow> Inl e | Inr h \<Rightarrow> Inr (obj_set results nm h))),
           s'))"

definition checkAllHealth ::
  "(ServiceKind \<Rightarrow> platform) \<Rightarrow> (ServiceKind \<Rightarrow> int) \<Rightarrow> (ServiceKind \<Rightarrow> int) \<Rightarrow> registry
     \<Rightarrow> (caught + (ServiceKind \<times> health) list) \<times> registry" where
  "checkAllHealth pf start finish s =
     fold (checkAllHealth_step pf start finish) (map fst (services s)) (Inr [], s)"

section \<open>The per-request context (context.ts)\<close>

text \<open>
  The \<open>services\<close> factory of \<open>createContext\<close>, for the token and the trace id that the
  context holds.
\<close>

definition context_defaultHeaders :: "string option \<Rightarrow> string \<Rightarrow> headers" where
  "context_defaultHeaders tok trace =
     obj_spread [(''X-Trace-Id'', trace)]
       (case tok of
          None \<Rightarrow> []
        | Some t \<Rightarrow> if t \<noteq> [] then [(''Authorization'', ''Bearer '' @ t)] else [])"

definition context_overrides :: "string option \<Rightarrow> string \<Rightarrow> PartialHttpClientConfig" where
  "context_overrides tok trace =
     \<lparr>ovr_baseUrl = None, ovr_defaultHeaders = Some (context_defaultHeaders tok trace),
      ovr_timeoutMs = None, ovr_retries = None\<rparr>"

definition services_get ::
  "string option \<Rightarrow> string \<Rightarrow> ServiceKind \<Rightarrow> registry \<Rightarrow> (js_error + HttpClient) \<times> registry" where
  "services_get tok trace nm s = getClient nm (Some (context_overrides tok trace)) s"

definition services_getDefault ::
  "string option \<Rightarrow> string \<Rightarrow> registry \<Rightarrow> (js_error + HttpClient) \<times> registry" where
  "services_getDefault tok trace s = getDefaultClient (Some (context_overrides tok trace)) s"

section \<open>Notions used to state the properties\<close>

subsection \<open>Attempts of a request\<close>

text \<open>What the \<open>i\<close>-th attempt of a request returns or throws, and the call it issues.\<close>

definition attempt_result ::
  "platform \<Rightarrow> HttpClient \<Rightarrow> RequestOptions \<Rightarrow> schema option \<Rightarrow> int \<Rightarrow> trpc_error + js_value" where
  "attempt_result pf cl opts sch i = fst (doFetch (new_URL pf) cl opts sch (fetch pf i))"

definition attempt_call ::
  "platform \<Rightarrow> HttpClient \<Rightarrow> RequestOptions \<Rightarrow> schema option \<Rightarrow> int \<Rightarrow> fetch_call option" where
  "attempt_call pf cl opts sch i = snd (doFetch (new_URL pf) cl opts sch (fetch pf i))"

definition retryable_failure ::
  "platform \<Rightarrow> HttpClient \<Rightarrow> RequestOptions \<Rightarrow> schema option \<Rightarrow> int \<Rightarrow> bool" where
  "retryable_failure pf cl opts sch i =
     (case attempt_result pf cl opts sch i of
        Inl e \<Rightarrow> code e \<in> {TIMEOUT, INTERNAL_SERVER_ERROR}
      | Inr v \<Rightarrow> False)"

fun is_attempt :: "event \<Rightarrow> bool" where
  "is_attempt (Attempt i c) = True"
| "is_attempt (Sleep ms) = False"

definition attempts :: "event list \<Rightarrow> nat" where
  "attempts tr = length (filter is_attempt tr)"

text \<open>The retry count in force and the method in force for a call.\<close>

definition effective_retries :: "HttpClient \<Rightarrow> RequestOptions \<Rightarrow> int" where
  "effective_retries cl opts = (case retries opts of None \<Rightarrow> client_retries cl | Some r \<Rightarrow> r)"

definition effective_method :: "RequestOptions \<Rightarrow> HttpMethod" where
  "effective_method opts = (case http_method opts of None \<Rightarrow> GET | Some m \<Rightarrow> m)"

text \<open>
  The specification's delay before attempt \<open>N\<close>, and the sequence of steps of a request
  that makes \<open>n\<close> attempts: attempt 1, the delay before attempt 2, attempt 2, and so on
  up to attempt \<open>n\<close>.
\<close>

definition spec_delay :: "int \<Rightarrow> int" where
  "spec_delay N = min (100 * 2 ^ nat (N - 2)) 2000"

definition spec_trace :: "(int \<Rightarrow> fetch_call option) \<Rightarrow> int \<Rightarrow> event list" where
  "spec_trace calls n =
     concat (map (\<lambda>i. [Attempt i (calls i), Sleep (spec_delay (i + 1))]) [1..n - 1])
     @ [Attempt n (calls n)]"

subsection \<open>Error classification\<close>

definition is_abort :: "thrown \<Rightarrow> bool" where
  "is_abort t = (thrown_name t = JStr ''AbortError'')"

definition url_built :: "url_constructor \<Rightarrow> HttpClient \<Rightarrow> RequestOptions \<Rightarrow> bool" where
  "url_built nu cl opts =
     (case buildUrl nu (baseUrl cl) (path opts) (query opts) of Inl e \<Rightarrow> False | Inr u \<Rightarrow> True)"

text \<open>Whether the body of a response is read as JSON (else it is read as text).\<close>

definition json_content :: "response \<Rightarrow> bool" where
  "json_content resp =
     str_includes (case content_type resp of None \<Rightarrow> [] | Some c \<Rightarrow> c) ''application/json''"

text \<open>The specification's table from status to kind, and its order of choice for the message.\<close>

definition spec_kind :: "nat \<Rightarrow> trpc_code" where
  "spec_kind st =
     (if st = 400 then BAD_REQUEST
      else if st = 401 then UNAUTHORIZED
      else if st = 403 then FORBIDDEN
      else if st = 404 then NOT_FOUND
      else if st = 408 \<or> st = 504 then TIMEOUT
      else INTERNAL_SERVER_ERROR)"

definition spec_message :: "js_value \<Rightarrow> nat \<Rightarrow> js_value" where
  "spec_message raw st =
     (if truthy (opt_prop raw ''message'') then opt_prop raw ''message''
      else if truthy (opt_prop raw ''error'') then opt_prop raw ''error''
      else (case raw of
              JStr s \<Rightarrow> JStr s
            | _ \<Rightarrow> JStr (''Request failed with status '' @ show_nat st)))"

subsection \<open>Header composition\<close>

text \<open>
  The header map obtained by merging in the order in which the specification lists the
  sources: client defaults, per-call headers, the two baseline entries, the
  authorisation header, the trace headers.
\<close>

definition spec_requestHeaders ::
  "headers \<Rightarrow> headers option \<Rightarrow> string option \<Rightarrow> string option \<Rightarrow> headers" where
  "spec_requestHeaders default_headers per_call tok trace =
     (let h1 = obj_spread [] default_headers;
          h2 = (case per_call of None \<Rightarrow> h1 | Some hs \<Rightarrow> obj_spread h1 hs);
          h3 = obj_spread h2
                 [(''Content-Type'', ''application/json''), (''Accept'', ''application/json'')];
          h4 = (case tok of
                  None \<Rightarrow> h3
                | Some t \<Rightarrow> if t \<noteq> [] then obj_set h3 ''Authorization'' (''Bearer '' @ t) else h3);
          h5 = (case trace of
                  None \<Rightarrow> h4
                | Some t \<Rightarrow>
                    if t \<noteq> [] then obj_set (obj_set h4 ''X-Trace-Id'' t) ''X-Request-Id'' t
                    else h4)
      in h5)"

text \<open>
  The value of header \<open>k\<close> by precedence: the trace headers, then the authorisation
  header, then the per-call headers, then the client defaults, then the baseline.
\<close>

definition override_chain ::
  "headers \<Rightarrow> headers option \<Rightarrow> string option \<Rightarrow> string option \<Rightarrow> string \<Rightarrow> string option" where
  "override_chain default_headers per_call tok trace k =
     (if truthy_str trace \<and> (k = ''X-Trace-Id'' \<or> k = ''X-Request-Id'') then trace
      else if truthy_str tok \<and> k = ''Authorization'' then map_option (\<lambda>t. ''Bearer '' @ t) tok
      else (case (case per_call of None \<Rightarrow> None | Some hs \<Rightarrow> map_of hs k) of
              Some v \<Rightarrow> Some v
            | None \<Rightarrow>
               (case map_of default_headers k of
                  Some v \<Rightarrow> Some v
                | None \<Rightarrow>
                    if k = ''Content-Type'' \<or> k = ''Accept'' then Some ''application/json''
                    else None)))"

subsection \<open>Query parameters\<close>

text \<open>The entries of a query object whose value is not \<open>undefined\<close>, coerced to strings.\<close>

fun defined_entries :: "(string \<times> query_value option) list \<Rightarrow> (string \<times> string) list" where
  "defined_entries [] = []"
| "defined_entries ((k, None) # es) = defined_entries es"
| "defined_entries ((k, Some v) # es) = (k, String_of v) # defined_entries es"

subsection \<open>Example inputs\<close>

definition demo_client :: HttpClient where
  "demo_client =
     createHttpClient 0
       \<lparr>cfg_baseUrl = ''http://x'', cfg_defaultHeaders = None, cfg_timeoutMs = None,
        cfg_retries = None\<rparr>"

definition users_call :: RequestOptions where
  "users_call = no_options\<lparr>path := ''/users''\<rparr>"

definition always_aborted :: platform where
  "always_aborted =
     \<lparr>new_URL = plain_URL,
      fetch = (\<lambda>i. Inl (ErrorObj ''AbortError'' ''This operation was aborted''))\<rparr>"

definition not_found_response :: response where
  "not_found_response =
     \<lparr>status = 404, content_type = Some ''application/json; charset=utf-8'',
      json = Inr (JObj [(''error'', JStr ''Not Found''), (''message'', JStr ''no such user'')]),
      text_body = Inr []\<rparr>"

definition unreadable_404 :: response where
  "unreadable_404 =
     \<lparr>status = 404, content_type = Some ''application/json'',
      json = Inl (ErrorObj ''SyntaxError'' ''Unexpected end of JSON input''),
      text_body = Inr []\<rparr>"

definition empty_text_500 :: response where
  "empty_text_500 =
     \<lparr>status = 500, content_type = None,
      json = Inl (ErrorObj ''SyntaxError'' ''Unexpected end of JSON input''),
      text_body = Inr []\<rparr>"

definition bad_gateway_text :: response where
  "bad_gateway_text =
     \<lparr>status = 502, content_type = Some ''text/html'',
      json = Inl (ErrorObj ''SyntaxError'' ''Unexpected token < in JSON at position 0''),
      text_body = Inr ''<h1>Bad Gateway</h1>''\<rparr>"

definition ok_response :: response where
  "ok_response =
     \<lparr>status = 200, content_type = Some ''application/json'',
      json = Inr (JObj [(''status'', JStr ''ok'')]), text_body = Inr []\<rparr>"

definition always_ok :: platform where
  "always_ok = \<lparr>new_URL = plain_URL, fetch = (\<lambda>i. Inr ok_response)\<rparr>"

definition python_only :: env where
  "python_only v = (if v = ''HALOLIGHT_API_PYTHON_URL'' then Some ''http://py'' else None)"

subsection \<open>Registry invariants\<close>

text \<open>
  The default service name is null exactly when no service is configured, and is a
  configured name otherwise.
\<close>

definition default_ok :: "registry \<Rightarrow> bool" where
  "default_ok s =
     (case defaultService s of
        None \<Rightarrow> services s = []
      | Some d \<Rightarrow> d \<in> set (map fst (services s)))"

text \<open>The cache holds clients of configured services only.\<close>

definition cache_configured :: "registry \<Rightarrow> bool" where
  "cache_configured s = (set (map fst (clientCache s)) \<subseteq> set (map fst (services s)))"

text \<open>
  Every cached client was allocated earlier, and is the client that the current
  configuration of its service yields without overrides.
\<close>

definition cache_current :: "registry \<Rightarrow> bool" where
  "cache_current s =
     (\<forall>(k, c) \<in> set (clientCache s).
        ident c < allocated s
        \<and> (case map_of (services s) k of
             None \<Rightarrow> False
           | Some svc \<Rightarrow> c = createHttpClient (ident c) (client_config svc None)))"

definition registry_inv :: "registry \<Rightarrow> bool" where
  "registry_inv s = (default_ok s \<and> cache_configured s \<and> cache_current s)"

text \<open>Whether the environment configures a service, and the message of the error if not.\<close>

definition configured :: "env \<Rightarrow> ServiceKind \<Rightarrow> bool" where
  "configured e k = (case e (ENV_VAR_MAP k) of None \<Rightarrow> False | Some b \<Rightarrow> b \<noteq> [])"

definition not_configured_message :: "ServiceKind \<Rightarrow> string" where
  "not_configured_message nm =
     ''Service \"'' @ kind_string nm @ ''\" is not configured. Set '' @ ENV_VAR_MAP nm
     @ '' environment variable.''"

text \<open>The configuration that \<open>loadServices\<close> stores for a configured service.\<close>

definition config_of :: "env \<Rightarrow> ServiceKind \<Rightarrow> ServiceConfig" where
  "config_of e kind =
     \<lparr>name = kind,
      service_baseUrl =
        (case e (ENV_VAR_MAP kind) of
           None \<Rightarrow> []
         | Some b \<Rightarrow> if endsWith_slash b then slice_0_minus1 b else b),
      healthPath = Some DEFAULT_HEALTH_PATH,
      priority = Some (DEFAULT_PRIORITY kind)\<rparr>"

text \<open>A run of \<open>getClient\<close> calls, each with its name and its overrides.\<close>

definition getClient_calls ::
  "(ServiceKind \<times> PartialHttpClientConfig option) list \<Rightarrow> registry \<Rightarrow> registry" where
  "getClient_calls calls s = fold (\<lambda>(k, ov) s'. snd (getClient k ov s')) calls s"

text \<open>The options and the path of the health probe of a service.\<close>

definition health_options :: "ServiceConfig \<Rightarrow> RequestOptions" where
  "health_options service =
     no_options\<lparr>timeoutMs := Some 3000, retries := Some 0,
       path := (case healthPath service of
                  None \<Rightarrow> DEFAULT_HEALTH_PATH
                | Some hp \<Rightarrow> if hp \<noteq> [] then hp else DEFAULT_HEALTH_PATH),
       http_method := Some GET\<rparr>"

text \<open>
  The call that the health probe of a service hands to \<open>fetch\<close>, and whether the probe
  succeeds: the URL is built, \<open>fetch\<close> resolves, the body is read and the status is 2xx.
\<close>

definition probe_call :: "platform \<Rightarrow> ServiceConfig \<Rightarrow> fetch_call option" where
  "probe_call pf service =
     (case buildUrl (new_URL pf) (service_baseUrl service) (path (health_options service)) None of
        Inl t \<Rightarrow> None
      | Inr u \<Rightarrow>
          Some \<lparr>call_url = u, call_method = GET,
                call_headers =
                  [(''Content-Type'', ''application/json''), (''Accept'', ''application/json'')],
                call_body = None, call_deadline = 3000\<rparr>)"

definition probe_succeeds :: "platform \<Rightarrow> ServiceConfig \<Rightarrow> bool" where
  "probe_succeeds pf service =
     (case buildUrl (new_URL pf) (service_baseUrl service) (path (health_options service)) None of
        Inl t \<Rightarrow> False
      | Inr u \<Rightarrow>
          (case fetch pf 1 of
             Inl t \<Rightarrow> False
           | Inr resp \<Rightarrow> (case read_raw resp of Inl t \<Rightarrow> False | Inr raw \<Rightarrow> ok resp)))"

subsection \<open>Example environments\<close>

definition three_services :: env where
  "three_services v =
     (if v = ''HALOLIGHT_API_GO_URL'' then Some ''http://go:8080''
      else if v = ''HALOLIGHT_API_NESTJS_URL'' then Some ''http://nest:3000/''
      else if v = ''HALOLIGHT_API_PYTHON_URL'' then Some ''http://py:8000''
      else None)"

definition no_services :: env where
  "no_services v = None"

definition example_com :: env where
  "example_com v =
     (if v = ''HALOLIGHT_API_PYTHON_URL'' then Some ''https://api.example.com'' else None)"

definition server_error_response :: response where
  "server_error_response =
     \<lparr>status = 500, content_type = Some ''text/plain'',
      json = Inl (ErrorObj ''SyntaxError'' ''Unexpected token I in JSON at position 0''),
      text_body = Inr ''Internal Server Error''\<rparr>"

definition always_500 :: platform where
  "always_500 = \<lparr>new_URL = plain_URL, fetch = (\<lambda>i. Inr server_error_response)\<rparr>"

text \<open>Three services, the first without a priority and the other two tied.\<close>

definition tie_services :: "(ServiceKind \<times> ServiceConfig) list" where
  "tie_services =
     [(java, \<lparr>name = java, service_baseUrl = ''http://java'', healthPath = None, priority = None\<rparr>),
      (bun, \<lparr>name = bun, service_baseUrl = ''http://bun'', healthPath = None, priority = Some 3\<rparr>),
      (node, \<lparr>name = node, service_baseUrl = ''http://node'', healthPath = None, priority = Some 3\<rparr>)]"

section \<open>Properties of objects as association lists\<close>

lemma map_of_obj_set: "map_of (obj_set kvs k v) = (map_of kvs)(k \<mapsto> v)"
  by (induction kvs) (auto simp: fun_upd_twist)

lemma map_fst_obj_set:
  "map fst (obj_set kvs k v) = (if map_of kvs k = None then map fst kvs @ [k] else map fst kvs)"
  by (induction kvs) auto

lemma keys_obj_set: "fst ` set (obj_set kvs k v) = insert k (fst ` set kvs)"
proof -
  have "set (map fst (obj_set kvs k v)) = insert k (set (map fst kvs))"
    unfolding map_fst_obj_set by (auto simp: map_of_eq_None_iff)
  then show ?thesis by simp
qed

lemma in_set_obj_set:
  "(k', c) \<in> set (obj_set kvs k v) \<Longrightarrow> (k', c) = (k, v) \<or> (k', c) \<in> set kvs"
  by (induction kvs) (auto split: if_splits)

lemma distinct_obj_set: "distinct (map fst kvs) \<Longrightarrow> distinct (map fst (obj_set kvs k v))"
  by (simp add: map_fst_obj_set map_of_eq_None_iff)

section \<open>Properties of the HTTP client\<close>

subsection \<open>The retry loop\<close>

text \<open>
  From any loop state with \<open>attempt \<le> maxAttempts\<close> the loop ends at some attempt \<open>n\<close>:
  every attempt before \<open>n\<close> failed with a retryable kind on an idempotent method and was
  followed by its back-off sleep, and attempt \<open>n\<close> decides the result.
\<close>

lemma request_loop_run:
  "a \<le> M \<Longrightarrow> request_loop pf cl opts sch M a le tr = (res, tr') \<Longrightarrow>
   \<exists>n. a \<le> n \<and> n \<le> M
     \<and> tr' = tr @ concat (map (\<lambda>i. [Attempt i (attempt_call pf cl opts sch i), Sleep (backoffMs i)])
                         [a..n - 1])
               @ [Attempt n (attempt_call pf cl opts sch n)]
     \<and> res = (case attempt_result pf cl opts sch n of Inl e \<Rightarrow> Inl (Some e) | Inr v \<Rightarrow> Inr v)
     \<and> (\<forall>i. a \<le> i \<and> i < n \<longrightarrow> retryable_failure pf cl opts sch i \<and> isIdempotent (http_method opts))
     \<and> (n < M \<longrightarrow> \<not> (retryable_failure pf cl opts sch n \<and> isIdempotent (http_method opts)))"
proof (induction pf cl opts sch M a le tr arbitrary: res tr' rule: request_loop.induct)
  case (1 pf cl opts sch M a le tr)
  obtain r c where dz: "doFetch (new_URL pf) cl opts sch (fetch pf a) = (r, c)"
    by (cases "doFetch (new_URL pf) cl opts sch (fetch pf a)")
  have ar: "attempt_result pf cl opts sch a = r" and ac: "attempt_call pf cl opts sch a = c"
    using dz by (simp_all add: attempt_result_def attempt_call_def)
  show ?case
  proof (cases r)
    case (Inr v)
    have "res = Inr v" "tr' = tr @ [Attempt a c]"
      using "1.prems" dz Inr by (simp_all add: request_loop.simps[of pf cl opts sch M a])
    then show ?thesis using "1.prems"(1) ar ac Inr
      by (intro exI[of _ a]) (auto simp add: retryable_failure_def)
  next
    case (Inl e)
    show ?thesis
    proof (cases "a = M \<or> \<not> isRetryable e \<or> \<not> isIdempotent (http_method opts)")
      case True
      have "res = Inl (Some e)" "tr' = tr @ [Attempt a c]"
        using "1.prems" dz Inl True by (auto simp add: request_loop.simps[of pf cl opts sch M a])
      then show ?thesis using "1.prems"(1) ar ac Inl True
        by (intro exI[of _ a]) (auto simp add: retryable_failure_def isRetryable_def)
    next
      case False
      then have lt: "a + 1 \<le> M" using "1.prems"(1) by simp
      have rec: "request_loop pf cl opts sch M (a + 1) (Some e)
                   (tr @ [Attempt a c, Sleep (backoffMs a)]) = (res, tr')"
        using "1.prems" dz Inl False by (simp add: request_loop.simps[of pf cl opts sch M a])
      from "1.IH"[OF "1.prems"(1) dz[symmetric] _ _ lt rec] Inl False
      obtain n where n: "a + 1 \<le> n" "n \<le> M"
        "tr' = (tr @ [Attempt a c, Sleep (backoffMs a)])
               @ concat (map (\<lambda>i. [Attempt i (attempt_call pf cl opts sch i), Sleep (backoffMs i)])
                           [a + 1..n - 1])
               @ [Attempt n (attempt_call pf cl opts sch n)]"
        "res = (case attempt_result pf cl opts sch n of Inl e \<Rightarrow> Inl (Some e) | Inr v \<Rightarrow> Inr v)"
        "\<forall>i. a + 1 \<le> i \<and> i < n \<longrightarrow> retryable_failure pf cl opts sch i \<and> isIdempotent (http_method opts)"
        "n < M \<longrightarrow> \<not> (retryable_failure pf cl opts sch n \<and> isIdempotent (http_method opts))"
        by auto
      have up: "[a..n - 1] = a # [a + 1..n - 1]" using n(1) by (simp add: upto_rec1)
      have ra: "retryable_failure pf cl opts sch a" using ar Inl False
        by (simp add: retryable_failure_def isRetryable_def)
      have all: "\<forall>i. a \<le> i \<and> i < n \<longrightarrow>
                   retryable_failure pf cl opts sch i \<and> isIdempotent (http_method opts)"
      proof (intro allI impI)
        fix i assume "a \<le> i \<and> i < n"
        then consider "i = a" | "a + 1 \<le> i \<and> i < n" by linarith
        then show "retryable_failure pf cl opts sch i \<and> isIdempotent (http_method opts)"
          using ra False n(5) by cases auto
      qed
      show ?thesis
        using n(1,2,3,4,6) all up ac by (intro exI[of _ n]) simp
    qed
  qed
qed

lemma attempts_spec_trace:
  "0 \<le> n \<Longrightarrow> int (attempts (spec_trace calls n)) = (if n < 1 then 1 else n)"
proof -
  have "length (filter is_attempt
                  (concat (map (\<lambda>i. [Attempt i (calls i), Sleep (spec_delay (i + 1))]) xs)))
        = length xs" for xs
    by (induction xs) auto
  then show "0 \<le> n \<Longrightarrow> ?thesis" by (simp add: attempts_def spec_trace_def)
qed

lemma request_run:
  assumes "0 \<le> effective_retries cl opts"
  shows "\<exists>n. 1 \<le> n \<and> n \<le> effective_retries cl opts + 1
     \<and> snd (request pf cl opts sch) = spec_trace (attempt_call pf cl opts sch) n
     \<and> fst (request pf cl opts sch) =
         (case attempt_result pf cl opts sch n of Inl e \<Rightarrow> Inl (Some e) | Inr v \<Rightarrow> Inr v)
     \<and> (\<forall>i. 1 \<le> i \<and> i < n \<longrightarrow> retryable_failure pf cl opts sch i \<and> isIdempotent (http_method opts))
     \<and> (n < effective_retries cl opts + 1 \<longrightarrow>
          \<not> (retryable_failure pf cl opts sch n \<and> isIdempotent (http_method opts)))"
proof -
  let ?M = "effective_retries cl opts + 1"
  obtain res tr where rq: "request_loop pf cl opts sch ?M 1 None [] = (res, tr)"
    by (cases "request_loop pf cl opts sch ?M 1 None []")
  have le: "1 \<le> ?M" using assms by simp
  have req: "request pf cl opts sch = (res, tr)"
    using rq by (simp add: request_def effective_retries_def)
  have bo: "backoffMs i = spec_delay (i + 1)" for i
    by (simp add: backoffMs_def spec_delay_def)
  from request_loop_run[OF le rq] show ?thesis
    unfolding req spec_trace_def bo by auto
qed

lemma demo_attempt:
  "attempt_result always_aborted demo_client users_call None i
   = Inl \<lparr>code = TIMEOUT, message = JStr ''Request timed out'', cause = NoCause\<rparr>"
  by (simp add: attempt_result_def doFetch_def doFetch_try_def always_aborted_def demo_client_def
      createHttpClient_def users_call_def no_options_def buildUrl_def join_url_def plain_URL_def
      endsWith_slash_def startsWith_slash_def Let_def)

text \<open>
  C1. A request with retry count \<open>r \<ge> 0\<close> (the per-call value, else the client default)
  runs its attempts one after the other: the steps are attempt 1, a sleep, attempt 2, a
  sleep, ... up to the last attempt \<open>n\<close>, and the sleep before attempt \<open>N \<ge> 2\<close> lasts
  \<open>min (100 * 2^(N-2)) 2000\<close> ms. The number \<open>n\<close> of attempts lies between 1 and \<open>r + 1\<close>;
  it is \<open>r + 1\<close> when the method is GET, PUT or DELETE and every attempt fails with kind
  timeout or internal; it is 1 when the method is POST or PATCH, when the first attempt
  fails with kind bad-request, unauthorized, forbidden or not-found, and when \<open>r = 0\<close>.
  The request returns what the last attempt returned, or throws the very error that the
  last attempt threw.
\<close>

theorem request_retry_policy:
  assumes r: "r = effective_retries cl opts" and nonneg: "0 \<le> r"
    and run: "request pf cl opts sch = (res, tr)"
    and n: "n = int (attempts tr)"
  shows "tr = spec_trace (attempt_call pf cl opts sch) n
    \<and> 1 \<le> n \<and> n \<le> r + 1
    \<and> (effective_method opts \<in> {GET, PUT, DELETE}
         \<and> (\<forall>i\<in>{1..r + 1}. retryable_failure pf cl opts sch i) \<longrightarrow> n = r + 1)
    \<and> (effective_method opts \<in> {POST, PATCH} \<longrightarrow> n = 1)
    \<and> ((\<exists>e. attempt_result pf cl opts sch 1 = Inl e
              \<and> code e \<in> {BAD_REQUEST, UNAUTHORIZED, FORBIDDEN, NOT_FOUND}) \<longrightarrow> n = 1)
    \<and> (r = 0 \<longrightarrow> n = 1)
    \<and> (\<forall>e. attempt_result pf cl opts sch n = Inl e \<longrightarrow> res = Inl (Some e))
    \<and> (\<forall>v. attempt_result pf cl opts sch n = Inr v \<longrightarrow> res = Inr v)"
proof -
  from request_run[of cl opts pf sch] nonneg r
  obtain k where k: "1 \<le> k" "k \<le> r + 1"
    "snd (request pf cl opts sch) = spec_trace (attempt_call pf cl opts sch) k"
    "fst (request pf cl opts sch) =
       (case attempt_result pf cl opts sch k of Inl e \<Rightarrow> Inl (Some e) | Inr v \<Rightarrow> Inr v)"
    "\<forall>i. 1 \<le> i \<and> i < k \<longrightarrow> retryable_failure pf cl opts sch i \<and> isIdempotent (http_method opts)"
    "k < r + 1 \<longrightarrow> \<not> (retryable_failure pf cl opts sch k \<and> isIdempotent (http_method opts))"
    by auto
  have tr: "tr = spec_trace (attempt_call pf cl opts sch) k" using k(3) run by simp
  have nk: "n = k"
    using n tr k(1) attempts_spec_trace[of k "attempt_call pf cl opts sch"] by simp
  have idem: "isIdempotent (http_method opts) = (effective_method opts \<in> {GET, PUT, DELETE})"
    by (simp add: isIdempotent_def effective_method_def)
  have c3: "effective_method opts \<in> {GET, PUT, DELETE}
         \<and> (\<forall>i\<in>{1..r + 1}. retryable_failure pf cl opts sch i) \<longrightarrow> k = r + 1"
    using k(1,2,6) idem by auto
  have c4: "effective_method opts \<in> {POST, PATCH} \<longrightarrow> k = 1"
  proof
    assume m: "effective_method opts \<in> {POST, PATCH}"
    then have "\<not> isIdempotent (http_method opts)" using idem by auto
    then have "\<not> (1 \<le> (1::int) \<and> 1 < k)" using k(5) by blast
    then show "k = 1" using k(1) by simp
  qed
  have c5: "(\<exists>e. attempt_result pf cl opts sch 1 = Inl e
              \<and> code e \<in> {BAD_REQUEST, UNAUTHORIZED, FORBIDDEN, NOT_FOUND}) \<longrightarrow> k = 1"
  proof
    assume "\<exists>e. attempt_result pf cl opts sch 1 = Inl e
              \<and> code e \<in> {BAD_REQUEST, UNAUTHORIZED, FORBIDDEN, NOT_FOUND}"
    then have "\<not> retryable_failure pf cl opts sch 1"
      by (auto simp: retryable_failure_def)
    then have "\<not> (1 \<le> (1::int) \<and> 1 < k)" using k(5) by blast
    then show "k = 1" using k(1) by simp
  qed
  have c6: "r = 0 \<longrightarrow> k = 1" using k(1,2) by simp
  have c7: "\<forall>e. attempt_result pf cl opts sch k = Inl e \<longrightarrow> res = Inl (Some e)"
    using k(4) run by simp
  have c8: "\<forall>v. attempt_result pf cl opts sch k = Inr v \<longrightarrow> res = Inr v"
    using k(4) run by simp
  show ?thesis
    unfolding nk using tr k(1,2) c3 c4 c5 c6 c7 c8 by blast
qed

theorem request_retry_policy_witness:
  "int (attempts (snd (request always_aborted demo_client users_call None))) = 3
   \<and> snd (request always_aborted demo_client users_call None)
       = spec_trace (attempt_call always_aborted demo_client users_call None) 3
   \<and> fst (request always_aborted demo_client users_call None)
       = Inl (Some \<lparr>code = TIMEOUT, message = JStr ''Request timed out'', cause = NoCause\<rparr>)"
proof -
  have r: "(2::int) = effective_retries demo_client users_call"
    by (simp add: effective_retries_def demo_client_def createHttpClient_def users_call_def
        no_options_def)
  have m: "effective_method users_call = GET"
    by (simp add: effective_method_def users_call_def no_options_def)
  have f: "\<forall>i\<in>{1..(2::int) + 1}. retryable_failure always_aborted demo_client users_call None i"
    by (simp add: retryable_failure_def demo_attempt)
  let ?tr = "snd (request always_aborted demo_client users_call None)"
  note T = request_retry_policy[OF r _ prod.collapse[symmetric] refl, of always_aborted None]
  have n3: "int (attempts ?tr) = 3" using T m f by simp
  have tr3: "?tr = spec_trace (attempt_call always_aborted demo_client users_call None) 3"
    using T unfolding n3 by simp
  have res: "fst (request always_aborted demo_client users_call None)
       = Inl (Some \<lparr>code = TIMEOUT, message = JStr ''Request timed out'', cause = NoCause\<rparr>)"
    using T unfolding n3 by (simp add: demo_attempt)
  show ?thesis using n3 tr3 res by (intro conjI)
qed

subsection \<open>Error classification of one attempt\<close>

lemma doFetch_url_throws:
  assumes "buildUrl nu (baseUrl cl) (path opts) (query opts) = Inl t"
  shows "fst (doFetch nu cl opts sch outcome) = Inl (doFetch_catch (Thrown t))"
  using assms by (simp add: doFetch_def doFetch_try_def Let_def)

lemma doFetch_fetch_throws:
  assumes "url_built nu cl opts"
  shows "fst (doFetch nu cl opts sch (Inl t)) = Inl (doFetch_catch (Thrown t))"
  using assms by (simp add: url_built_def doFetch_def doFetch_try_def Let_def split: sum.splits)

lemma doFetch_resolved:
  assumes "url_built nu cl opts"
  shows "fst (doFetch nu cl opts sch (Inr resp)) =
     (case doFetch_response sch resp of Inl e \<Rightarrow> Inl (doFetch_catch e) | Inr v \<Rightarrow> Inr v)"
  using assms by (simp add: url_built_def doFetch_def doFetch_try_def Let_def split: sum.splits)

lemma doFetch_catch_code:
  "code (doFetch_catch (Thrown t)) = (if is_abort t then TIMEOUT else INTERNAL_SERVER_ERROR)"
  by (simp add: is_abort_def)

text \<open>The body is read as JSON or as text, by the content type.\<close>

lemma read_raw_json: "json_content resp \<Longrightarrow> read_raw resp = json resp"
  by (simp add: read_raw_def json_content_def)

lemma read_raw_text:
  "\<not> json_content resp \<Longrightarrow>
   read_raw resp = (case text_body resp of Inl e \<Rightarrow> Inl e | Inr t \<Rightarrow> Inr (JStr t))"
  by (simp add: read_raw_def json_content_def)

text \<open>
  The code looks at the type of the body first and the specification at the \<open>message\<close>
  field first; a string has neither field, so the two orders choose the same message.
\<close>

lemma errorMessage_spec: "errorMessage raw st = spec_message raw st"
  by (cases raw) (simp_all add: errorMessage_def spec_message_def js_or_def)

lemma spec_message_text: "spec_message (JStr t) st = JStr t"
  by (simp add: spec_message_def)

lemma mapHttpStatusToTRPCCode_spec: "mapHttpStatusToTRPCCode st = spec_kind st"
  by (simp add: spec_kind_def)

lemma doFetch_not_ok:
  assumes "url_built nu cl opts" "read_raw resp = Inr raw" "\<not> ok resp"
  shows "fst (doFetch nu cl opts sch (Inr resp)) =
      Inl \<lparr>code = spec_kind (status resp), message = spec_message raw (status resp),
           cause = HttpCause (status resp) raw\<rparr>"
  using assms doFetch_resolved[of nu cl opts sch resp]
  by (simp add: doFetch_response_def errorMessage_spec spec_kind_def)

lemma doFetch_read_throws:
  assumes "url_built nu cl opts" "read_raw resp = Inl t"
  shows "fst (doFetch nu cl opts sch (Inr resp)) = Inl (doFetch_catch (Thrown t))"
  using assms doFetch_resolved[of nu cl opts sch resp] by (simp add: doFetch_response_def)

lemma doFetch_invalid:
  assumes "url_built nu cl opts" "read_raw resp = Inr raw" "ok resp" "validate raw = Inl zerr"
  shows "fst (doFetch nu cl opts (Some validate) (Inr resp)) =
      Inl \<lparr>code = INTERNAL_SERVER_ERROR, message = JStr ''Response validation failed'',
           cause = ZodCause zerr\<rparr>"
  using assms doFetch_resolved[of nu cl opts "Some validate" resp]
  by (simp add: doFetch_response_def)

lemma demo_url_built: "url_built plain_URL demo_client users_call"
  by (simp add: url_built_def buildUrl_def plain_URL_def)

text \<open>
  C2, as stated, fails. A 404 response whose content type announces JSON and whose body
  cannot be parsed is surfaced as kind internal, not not-found: the body is read before
  the status is looked at, and the exception of the reading is classified by the
  \<open>catch\<close> block. And a non-2xx response with an empty text body gets the empty
  message, not the fallback.
\<close>

theorem doFetch_status_kind_counterexample:
  "fst (doFetch plain_URL demo_client users_call None (Inr unreadable_404))
     = Inl \<lparr>code = INTERNAL_SERVER_ERROR, message = JStr ''Unexpected end of JSON input'',
            cause = ThrownCause (ErrorObj ''SyntaxError'' ''Unexpected end of JSON input'')\<rparr>
   \<and> status unreadable_404 = 404
   \<and> spec_kind 404 = NOT_FOUND
   \<and> fst (doFetch plain_URL demo_client users_call None (Inr empty_text_500))
     = Inl \<lparr>code = INTERNAL_SERVER_ERROR, message = JStr [], cause = HttpCause 500 (JStr [])\<rparr>"
proof (intro conjI)
  have r: "read_raw unreadable_404 = Inl (ErrorObj ''SyntaxError'' ''Unexpected end of JSON input'')"
    by (simp add: read_raw_def unreadable_404_def)
  show "fst (doFetch plain_URL demo_client users_call None (Inr unreadable_404))
     = Inl \<lparr>code = INTERNAL_SERVER_ERROR, message = JStr ''Unexpected end of JSON input'',
            cause = ThrownCause (ErrorObj ''SyntaxError'' ''Unexpected end of JSON input'')\<rparr>"
    using doFetch_read_throws[OF demo_url_built r, of None] by simp
  show "status unreadable_404 = 404" by (simp add: unreadable_404_def)
  show "spec_kind 404 = NOT_FOUND" by (simp add: spec_kind_def)
  have t: "read_raw empty_text_500 = Inr (JStr [])"
    by (simp add: read_raw_def empty_text_500_def)
  have n: "\<not> ok empty_text_500" by (simp add: ok_def empty_text_500_def)
  have s: "status empty_text_500 = 500" by (simp add: empty_text_500_def)
  show "fst (doFetch plain_URL demo_client users_call None (Inr empty_text_500))
     = Inl \<lparr>code = INTERNAL_SERVER_ERROR, message = JStr [], cause = HttpCause 500 (JStr [])\<rparr>"
    using doFetch_not_ok[OF demo_url_built t n, of None]
    by (simp add: s spec_kind_def spec_message_def)
qed

text \<open>
  C2, amended. Every failure of an attempt is a typed error. When building the URL,
  \<open>fetch\<close>, or the reading of the body (as JSON when the content type contains
  \<open>application/json\<close>, as text otherwise) throws, the kind is timeout if the exception
  is the abort raised by the expired deadline, and internal otherwise, whatever the
  status of the response. When the body of a response whose status is not 2xx has been
  read, the kind follows the table 400 bad-request, 401 unauthorized, 403 forbidden, 404
  not-found, 408 and 504 timeout, anything else internal. The message handed to the
  error is then, for a JSON body, its \<open>message\<close> field when truthy, else its \<open>error\<close>
  field when truthy, else the body itself when it is a string, else
  \<open>Request failed with status N\<close>; for a text body it is the text, also when that is
  empty. When a 2xx body fails the response schema, the kind is internal.
\<close>

theorem doFetch_error_classification:
  "(\<forall>t. buildUrl nu (baseUrl cl) (path opts) (query opts) = Inl t
        \<or> url_built nu cl opts
          \<and> (outcome = Inl t
             \<or> (\<exists>resp. outcome = Inr resp \<and> json_content resp \<and> json resp = Inl t)
             \<or> (\<exists>resp. outcome = Inr resp \<and> \<not> json_content resp \<and> text_body resp = Inl t)) \<longrightarrow>
        (\<exists>e. fst (doFetch nu cl opts sch outcome) = Inl e
            \<and> code e = (if is_abort t then TIMEOUT else INTERNAL_SERVER_ERROR)))
   \<and> (\<forall>resp raw.
        url_built nu cl opts \<and> outcome = Inr resp \<and> json_content resp \<and> json resp = Inr raw
        \<and> \<not> ok resp \<longrightarrow>
        (\<exists>e. fst (doFetch nu cl opts sch outcome) = Inl e
            \<and> code e = spec_kind (status resp)
            \<and> message e = spec_message raw (status resp)))
   \<and> (\<forall>resp t.
        url_built nu cl opts \<and> outcome = Inr resp \<and> \<not> json_content resp
        \<and> text_body resp = Inr t \<and> \<not> ok resp \<longrightarrow>
        (\<exists>e. fst (doFetch nu cl opts sch outcome) = Inl e
            \<and> code e = spec_kind (status resp)
            \<and> message e = JStr t))
   \<and> (\<forall>resp raw validate zerr.
        url_built nu cl opts \<and> outcome = Inr resp \<and> ok resp
        \<and> (json_content resp \<and> json resp = Inr raw
           \<or> \<not> json_content resp \<and> (\<exists>t. text_body resp = Inr t \<and> raw = JStr t))
        \<and> sch = Some validate \<and> validate raw = Inl zerr \<longrightarrow>
        (\<exists>e. fst (doFetch nu cl opts sch outcome) = Inl e \<and> code e = INTERNAL_SERVER_ERROR))"
proof (intro conjI allI impI)
  fix t
  assume "buildUrl nu (baseUrl cl) (path opts) (query opts) = Inl t
        \<or> url_built nu cl opts
          \<and> (outcome = Inl t
             \<or> (\<exists>resp. outcome = Inr resp \<and> json_content resp \<and> json resp = Inl t)
             \<or> (\<exists>resp. outcome = Inr resp \<and> \<not> json_content resp \<and> text_body resp = Inl t))"
  then consider
      (url) "buildUrl nu (baseUrl cl) (path opts) (query opts) = Inl t"
    | (fetch) "url_built nu cl opts" "outcome = Inl t"
    | (json_body) resp where "url_built nu cl opts" "outcome = Inr resp" "json_content resp"
        "json resp = Inl t"
    | (text_body_throws) resp where "url_built nu cl opts" "outcome = Inr resp" "\<not> json_content resp"
        "text_body resp = Inl t"
    by blast
  then have "fst (doFetch nu cl opts sch outcome) = Inl (doFetch_catch (Thrown t))"
  proof cases
    case url
    then show ?thesis by (rule doFetch_url_throws)
  next
    case fetch
    then show ?thesis using doFetch_fetch_throws[of nu cl opts sch t] by simp
  next
    case json_body
    have "read_raw resp = Inl t" using json_body(3,4) by (simp add: read_raw_json)
    then show ?thesis using json_body(1,2) doFetch_read_throws[of nu cl opts resp t sch] by simp
  next
    case text_body_throws
    have "read_raw resp = Inl t" using text_body_throws(3,4) by (simp add: read_raw_text)
    then show ?thesis using text_body_throws(1,2) doFetch_read_throws[of nu cl opts resp t sch] by simp
  qed
  then show "\<exists>e. fst (doFetch nu cl opts sch outcome) = Inl e
            \<and> code e = (if is_abort t then TIMEOUT else INTERNAL_SERVER_ERROR)"
    using doFetch_catch_code[of t] by simp
next
  fix resp raw
  assume a: "url_built nu cl opts \<and> outcome = Inr resp \<and> json_content resp
             \<and> json resp = Inr raw \<and> \<not> ok resp"
  then have "read_raw resp = Inr raw" by (simp add: read_raw_json)
  then show "\<exists>e. fst (doFetch nu cl opts sch outcome) = Inl e
            \<and> code e = spec_kind (status resp)
            \<and> message e = spec_message raw (status resp)"
    using a doFetch_not_ok[of nu cl opts resp raw sch] by simp
next
  fix resp t
  assume a: "url_built nu cl opts \<and> outcome = Inr resp \<and> \<not> json_content resp
             \<and> text_body resp = Inr t \<and> \<not> ok resp"
  then have "read_raw resp = Inr (JStr t)" by (simp add: read_raw_text)
  then show "\<exists>e. fst (doFetch nu cl opts sch outcome) = Inl e
            \<and> code e = spec_kind (status resp)
            \<and> message e = JStr t"
    using a doFetch_not_ok[of nu cl opts resp "JStr t" sch] by (simp add: spec_message_text)
next
  fix resp raw validate zerr
  assume a: "url_built nu cl opts \<and> outcome = Inr resp \<and> ok resp
        \<and> (json_content resp \<and> json resp = Inr raw
           \<or> \<not> json_content resp \<and> (\<exists>t. text_body resp = Inr t \<and> raw = JStr t))
        \<and> sch = Some validate \<and> validate raw = Inl zerr"
  then have "read_raw resp = Inr raw" by (auto simp: read_raw_json read_raw_text)
  then show "\<exists>e. fst (doFetch nu cl opts sch outcome) = Inl e \<and> code e = INTERNAL_SERVER_ERROR"
    using a doFetch_invalid[of nu cl opts resp raw validate zerr] by simp
qed

theorem doFetch_error_classification_witness:
  "url_built plain_URL demo_client users_call
   \<and> json_content not_found_response \<and> \<not> ok not_found_response
   \<and> (\<exists>e. fst (doFetch plain_URL demo_client users_call None (Inr not_found_response)) = Inl e
          \<and> code e = NOT_FOUND \<and> message e = JStr ''no such user'')
   \<and> \<not> json_content bad_gateway_text \<and> \<not> ok bad_gateway_text
   \<and> (\<exists>e. fst (doFetch plain_URL demo_client users_call None (Inr bad_gateway_text)) = Inl e
          \<and> code e = INTERNAL_SERVER_ERROR \<and> message e = JStr ''<h1>Bad Gateway</h1>'')"
proof -
  have jc: "json_content not_found_response"
    by (simp add: json_content_def not_found_response_def)
  have js: "json not_found_response
            = Inr (JObj [(''error'', JStr ''Not Found''), (''message'', JStr ''no such user'')])"
    by (simp add: not_found_response_def)
  have nok: "\<not> ok not_found_response" by (simp add: ok_def not_found_response_def)
  have st: "status not_found_response = 404" by (simp add: not_found_response_def)
  have k: "spec_kind 404 = NOT_FOUND" by (simp add: spec_kind_def)
  have m: "spec_message (JObj [(''error'', JStr ''Not Found''), (''message'', JStr ''no such user'')]) 404
           = JStr ''no such user''"
    by (simp add: spec_message_def)
  from doFetch_error_classification[of plain_URL demo_client users_call
         "Inr not_found_response" None]
    demo_url_built jc js nok
  have "\<exists>e. fst (doFetch plain_URL demo_client users_call None (Inr not_found_response)) = Inl e
      \<and> code e = spec_kind (status not_found_response)
      \<and> message e =
          spec_message (JObj [(''error'', JStr ''Not Found''), (''message'', JStr ''no such user'')])
            (status not_found_response)"
    by blast
  then have a: "\<exists>e. fst (doFetch plain_URL demo_client users_call None (Inr not_found_response)) = Inl e
          \<and> code e = NOT_FOUND \<and> message e = JStr ''no such user''"
    unfolding st k m .
  have njc: "\<not> json_content bad_gateway_text"
    by (simp add: json_content_def bad_gateway_text_def)
  have tx: "text_body bad_gateway_text = Inr ''<h1>Bad Gateway</h1>''"
    by (simp add: bad_gateway_text_def)
  have nok2: "\<not> ok bad_gateway_text" by (simp add: ok_def bad_gateway_text_def)
  have st2: "status bad_gateway_text = 502" by (simp add: bad_gateway_text_def)
  have k2: "spec_kind 502 = INTERNAL_SERVER_ERROR" by (simp add: spec_kind_def)
  from doFetch_error_classification[of plain_URL demo_client users_call
         "Inr bad_gateway_text" None]
    demo_url_built njc tx nok2
  have "\<exists>e. fst (doFetch plain_URL demo_client users_call None (Inr bad_gateway_text)) = Inl e
      \<and> code e = spec_kind (status bad_gateway_text)
      \<and> message e = JStr ''<h1>Bad Gateway</h1>''"
    by blast
  then have b: "\<exists>e. fst (doFetch plain_URL demo_client users_call None (Inr bad_gateway_text)) = Inl e
          \<and> code e = INTERNAL_SERVER_ERROR \<and> message e = JStr ''<h1>Bad Gateway</h1>''"
    unfolding st2 k2 .
  show ?thesis using demo_url_built jc nok a njc nok2 b by (intro conjI)
qed

subsection \<open>Header composition\<close>

lemma map_of_obj_spread:
  "distinct (map fst src) \<Longrightarrow> map_of (obj_spread target src) = map_of target ++ map_of src"
unfolding obj_spread_def
proof (induction src arbitrary: target)
  case Nil
  then show ?case by simp
next
  case (Cons e src)
  obtain k v where e: "e = (k, v)" by (cases e)
  have nk: "map_of src k = None" using Cons.prems e by (simp add: map_of_eq_None_iff)
  have "map_of (fold (\<lambda>(k, v) acc. obj_set acc k v) src (obj_set target k v))
        = map_of (obj_set target k v) ++ map_of src"
    using Cons.IH[of "obj_set target k v"] Cons.prems by simp
  also have "\<dots> = map_of target ++ map_of ((k, v) # src)"
  proof (rule ext)
    fix a
    show "(map_of (obj_set target k v) ++ map_of src) a
          = (map_of target ++ map_of ((k, v) # src)) a"
      using nk
      by (cases "a = k") (simp_all add: map_of_obj_set map_add_def split: option.splits)
  qed
  finally have "map_of (fold (\<lambda>(k, v) acc. obj_set acc k v) src (obj_set target k v))
        = map_of target ++ map_of ((k, v) # src)" .
  then show ?case unfolding e by (simp only: fold_simps o_apply case_prod_conv)
qed

text \<open>
  C3, as the specification states it, fails: merged in the stated order the baseline
  \<open>Content-Type\<close> would replace a per-call one, whereas the code lets the per-call
  header replace the baseline.
\<close>

theorem requestHeaders_spec_order_counterexample:
  "map_of (requestHeaders [] (Some [(''Content-Type'', ''text/plain'')]) None None) ''Content-Type''
     \<noteq> map_of (spec_requestHeaders [] (Some [(''Content-Type'', ''text/plain'')]) None None)
          ''Content-Type''
   \<and> map_of (requestHeaders [] (Some [(''Content-Type'', ''text/plain'')]) None None) ''Content-Type''
     = Some ''text/plain''
   \<and> map_of (spec_requestHeaders [] (Some [(''Content-Type'', ''text/plain'')]) None None)
        ''Content-Type''
     = Some ''application/json''"
  by (simp add: requestHeaders_def spec_requestHeaders_def obj_spread_def)

text \<open>
  C3, amended. The header map of an attempt is the merge of the baseline
  \<open>Content-Type: application/json\<close> and \<open>Accept: application/json\<close>, then the client
  defaults, then the per-call headers, then \<open>Authorization: Bearer <token>\<close> when a
  non-empty token is given, then \<open>X-Trace-Id\<close> and \<open>X-Request-Id\<close>, both the trace id,
  when a non-empty trace id is given; each later source replaces the earlier ones on a
  common key. So a per-call header wins over a client default, and either wins over the
  baseline.
\<close>

theorem requestHeaders_precedence:
  assumes "distinct (map fst default_headers)"
    and "\<forall>hs. per_call = Some hs \<longrightarrow> distinct (map fst hs)"
  shows "map_of (requestHeaders default_headers per_call tok trace) k
         = override_chain default_headers per_call tok trace k"
proof -
  let ?h0 = "[(''Content-Type'', ''application/json''), (''Accept'', ''application/json'')]"
  let ?h1 = "obj_spread ?h0 default_headers"
  let ?h2 = "(case per_call of None \<Rightarrow> ?h1 | Some hs \<Rightarrow> obj_spread ?h1 hs)"
  have h1: "map_of ?h1 = map_of ?h0 ++ map_of default_headers"
    using assms(1) by (rule map_of_obj_spread)
  have h2: "map_of ?h2 k =
      (case (case per_call of None \<Rightarrow> None | Some hs \<Rightarrow> map_of hs k) of
         Some v \<Rightarrow> Some v
       | None \<Rightarrow> (case map_of default_headers k of
                    Some v \<Rightarrow> Some v
                  | None \<Rightarrow> if k = ''Content-Type'' \<or> k = ''Accept'' then Some ''application/json''
                             else None))"
  proof (cases per_call)
    case None
    then show ?thesis by (simp add: h1 map_add_def split: option.splits)
  next
    case (Some hs)
    then have "map_of ?h2 = (map_of ?h0 ++ map_of default_headers) ++ map_of hs"
      using assms(2) h1 by (simp add: map_of_obj_spread)
    then show ?thesis using Some by (simp add: map_add_def split: option.splits)
  qed
  define g where "g = ?h2"
  have rh: "requestHeaders default_headers per_call tok trace =
      (let h3 = (case tok of None \<Rightarrow> g
                 | Some t \<Rightarrow> if t \<noteq> [] then obj_set g ''Authorization'' (''Bearer '' @ t) else g)
       in case trace of None \<Rightarrow> h3
          | Some t \<Rightarrow> if t \<noteq> [] then obj_set (obj_set h3 ''X-Trace-Id'' t) ''X-Request-Id'' t
                      else h3)"
    by (simp only: requestHeaders_def g_def Let_def)
  have gk: "map_of g k =
      (case (case per_call of None \<Rightarrow> None | Some hs \<Rightarrow> map_of hs k) of
         Some v \<Rightarrow> Some v
       | None \<Rightarrow> (case map_of default_headers k of
                    Some v \<Rightarrow> Some v
                  | None \<Rightarrow> if k = ''Content-Type'' \<or> k = ''Accept'' then Some ''application/json''
                             else None))"
    unfolding g_def by (rule h2)
  have main: "map_of (requestHeaders default_headers per_call tok trace) k =
     (if truthy_str trace \<and> (k = ''X-Trace-Id'' \<or> k = ''X-Request-Id'') then trace
      else if truthy_str tok \<and> k = ''Authorization'' then map_option (\<lambda>t. ''Bearer '' @ t) tok
      else map_of g k)"
    unfolding rh Let_def
    by (cases tok; cases trace) (simp_all add: map_of_obj_set)
  show ?thesis
    unfolding override_chain_def main gk by (rule refl)
qed

theorem requestHeaders_precedence_witness:
  "distinct (map fst [(''Accept'', ''text/html'')])
   \<and> distinct (map fst [(''Content-Type'', ''text/plain'')])
   \<and> map_of (requestHeaders [(''Accept'', ''text/html'')] (Some [(''Content-Type'', ''text/plain'')])
               (Some ''abc'') (Some ''t1'')) ''Content-Type'' = Some ''text/plain''
   \<and> map_of (requestHeaders [(''Accept'', ''text/html'')] (Some [(''Content-Type'', ''text/plain'')])
               (Some ''abc'') (Some ''t1'')) ''Accept'' = Some ''text/html''
   \<and> map_of (requestHeaders [(''Accept'', ''text/html'')] (Some [(''Content-Type'', ''text/plain'')])
               (Some ''abc'') (Some ''t1'')) ''X-Request-Id'' = Some ''t1''"
  using requestHeaders_precedence[of "[(''Accept'', ''text/html'')]"
          "Some [(''Content-Type'', ''text/plain'')]" "Some ''abc''" "Some ''t1''"]
  by (simp add: override_chain_def)

subsection \<open>Clients handed out by the request context\<close>

lemma load_python_only:
  "loadServices python_only =
   [(python, \<lparr>name = python, service_baseUrl = ''http://py'', healthPath = Some ''/health'',
              priority = Some 2\<rparr>)]"
  by (simp add: loadServices_def ENV_VAR_MAP_keys_def load_one_def python_only_def
      endsWith_slash_def DEFAULT_HEALTH_PATH_def)

text \<open>
  C4. In a context holding the token \<open>tok\<close> and the trace id \<open>t1\<close>, a GET issued through
  the client of \<open>ctx.services.get(python)\<close>, or of \<open>ctx.services.getDefault()\<close>, with no
  header supplied by the caller, carries \<open>Authorization: Bearer tok\<close> and
  \<open>X-Trace-Id: t1\<close> and does not carry \<open>X-Request-Id\<close>.
\<close>

theorem context_client_headers:
  "\<exists>client s' call.
     services_get (Some ''tok'') ''t1'' python (new_ServiceRegistry python_only) = (Inr client, s')
     \<and> services_getDefault (Some ''tok'') ''t1'' (new_ServiceRegistry python_only) = (Inr client, s')
     \<and> snd (client_get always_ok client ''/users'' no_options None) = [Attempt 1 (Some call)]
     \<and> call_headers call =
         [(''Content-Type'', ''application/json''), (''Accept'', ''application/json''),
          (''X-Trace-Id'', ''t1''), (''Authorization'', ''Bearer tok'')]
     \<and> map_of (call_headers call) ''Authorization'' = Some ''Bearer tok''
     \<and> map_of (call_headers call) ''X-Trace-Id'' = Some ''t1''
     \<and> map_of (call_headers call) ''X-Request-Id'' = None"
  by (simp add: services_get_def services_getDefault_def getDefaultClient_def findDefaultService_def
      getClient_def new_ServiceRegistry_def load_python_only
      context_overrides_def context_defaultHeaders_def obj_spread_def client_config_def
      createHttpClient_def client_get_def request_def no_options_def always_ok_def doFetch_def
      doFetch_try_def buildUrl_def join_url_def plain_URL_def endsWith_slash_def
      startsWith_slash_def url_toString_def requestHeaders_def doFetch_response_def read_raw_def
      ok_response_def ok_def Let_def)

subsection \<open>URL construction\<close>

lemma join_url_both: "join_url (b @ ''/'') (''/'' @ q) = b @ ''/'' @ q"
  by (simp add: join_url_def endsWith_slash_def startsWith_slash_def slice_0_minus1_def Let_def)

lemma join_url_base_slash: "\<not> startsWith_slash q \<Longrightarrow> join_url (b @ ''/'') q = b @ ''/'' @ q"
  by (simp add: join_url_def endsWith_slash_def slice_0_minus1_def Let_def)

lemma join_url_path_slash: "\<not> endsWith_slash b \<Longrightarrow> join_url b (''/'' @ q) = b @ ''/'' @ q"
  by (simp add: join_url_def startsWith_slash_def Let_def)

lemma join_url_neither:
  "\<not> endsWith_slash b \<Longrightarrow> \<not> startsWith_slash q \<Longrightarrow> join_url b q = b @ ''/'' @ q"
  by (simp add: join_url_def Let_def)

lemma searchParams_set_fresh: "k \<notin> fst ` set ps \<Longrightarrow> searchParams_set ps k v = ps @ [(k, v)]"
  by (induction ps) auto

lemma defined_entries_keys: "fst ` set (defined_entries es) \<subseteq> fst ` set es"
  by (induction es rule: defined_entries.induct) auto

lemma fold_set_query_entry:
  "distinct (map fst es) \<Longrightarrow> fst ` set es \<inter> fst ` set (searchParams u) = {} \<Longrightarrow>
   fold set_query_entry es u = u\<lparr>searchParams := searchParams u @ defined_entries es\<rparr>"
proof (induction es arbitrary: u rule: defined_entries.induct)
  case 1
  then show ?case by simp
next
  case (2 k es)
  then show ?case by (simp add: set_query_entry_def)
next
  case (3 k v es)
  let ?u = "u\<lparr>searchParams := searchParams u @ [(k, String_of v)]\<rparr>"
  have fresh: "k \<notin> fst ` set (searchParams u)" using "3.prems"(2) by auto
  have step: "set_query_entry (k, Some v) u = ?u"
    using fresh by (simp add: set_query_entry_def searchParams_set_fresh)
  have d: "distinct (map fst es)" and nk: "k \<notin> fst ` set es" using "3.prems"(1) by auto
  have disj: "fst ` set es \<inter> fst ` set (searchParams ?u) = {}"
    using "3.prems"(2) nk by auto
  show ?case using "3.IH"[OF d disj] step by simp
qed

lemma undefined_key_absent:
  "distinct (map fst es) \<Longrightarrow> (k, None) \<in> set es \<Longrightarrow> k \<notin> fst ` set (defined_entries es)"
proof (induction es rule: defined_entries.induct)
  case 1
  then show ?case by simp
next
  case (2 k' es)
  then show ?case using defined_entries_keys[of es] by auto
next
  case (3 k' v es)
  then show ?case by (auto simp: image_iff)
qed

lemma buildUrl_query:
  assumes "nu (join_url base p) = Inr u" "searchParams u = []" "distinct (map fst es)"
  shows "buildUrl nu base p (Some es)
         = Inr (url_toString (u\<lparr>searchParams := defined_entries es\<rparr>))"
  using assms fold_set_query_entry[of es u] by (simp add: buildUrl_def)

lemma buildUrl_trailing_slash_example:
  "buildUrl plain_URL ''http://x/'' ''users'' None = Inr ''http://x/users''"
  by (simp add: buildUrl_def join_url_def plain_URL_def endsWith_slash_def startsWith_slash_def
      slice_0_minus1_def url_toString_def Let_def)

lemma buildUrl_leading_slash_example:
  "buildUrl plain_URL ''http://x'' ''/users'' None = Inr ''http://x/users''"
  by (simp add: buildUrl_def join_url_def plain_URL_def endsWith_slash_def startsWith_slash_def
      slice_0_minus1_def url_toString_def Let_def)

lemma form_encode_page: "form_encode ''page'' = ''page''"
  by (simp add: form_encode_def form_encode_char_def form_safe_def)

lemma form_encode_1: "form_encode ''1'' = ''1''"
  by (simp add: form_encode_def form_encode_char_def form_safe_def)

lemma buildUrl_query_example:
  "buildUrl plain_URL ''http://x'' ''/users'' (Some [(''page'', Some (QNum 1)), (''search'', None)])
    = Inr ''http://x/users?page=1''"
  by (simp add: buildUrl_def join_url_def plain_URL_def endsWith_slash_def startsWith_slash_def
      slice_0_minus1_def url_toString_def Let_def set_query_entry_def show_int_def
      form_encode_page form_encode_1)

text \<open>
  C5, as stated for every base URL and path, fails: only one trailing slash of the base
  and one leading slash of the path are absorbed, so a base ending in two slashes, or a
  path beginning with two, leaves more than one slash between them.
\<close>

theorem join_url_double_slash_counterexample:
  "join_url ''http://x//'' ''//users'' = ''http://x///users''
   \<and> buildUrl plain_URL ''http://x//'' ''//users'' None = Inr ''http://x///users''
   \<and> buildUrl plain_URL ''http://x//'' ''//users'' None \<noteq> Inr ''http://x/users''
   \<and> buildUrl plain_URL ''http://x//'' ''users'' None = Inr ''http://x//users''"
  by (simp add: buildUrl_def join_url_def plain_URL_def endsWith_slash_def startsWith_slash_def
      slice_0_minus1_def url_toString_def Let_def)

text \<open>
  C5, amended. The string handed to the URL constructor is the base, without its last
  character when that is a slash, followed by the path, with a slash put in front when
  the path does not begin with one. So for a base \<open>b\<close> or \<open>b/\<close> and a path \<open>q\<close> or \<open>/q\<close>
  it is \<open>b/q\<close> in all four combinations, where \<open>b\<close> stands for a base given without
  the trailing slash and \<open>q\<close> for a path given without the leading slash: exactly one
  slash joins them when \<open>b\<close> does not end and \<open>q\<close> does not begin with a slash, and any
  further slashes of \<open>b\<close> and \<open>q\<close> are kept. \<open>http://x/\<close> with \<open>users\<close> and \<open>http://x\<close>
  with \<open>/users\<close> both give \<open>http://x/users\<close>. On a URL parsed without search
  parameters, the query object adds exactly its entries whose value is not undefined,
  in order and coerced to strings; the key of an undefined entry is not among them, and
  \<open>{page: 1, search: undefined}\<close> yields \<open>?page=1\<close>.
\<close>

theorem buildUrl_join_and_query:
  "join_url (b @ ''/'') (''/'' @ q) = b @ ''/'' @ q
   \<and> (\<not> startsWith_slash q \<longrightarrow> join_url (b @ ''/'') q = b @ ''/'' @ q)
   \<and> (\<not> endsWith_slash b \<longrightarrow> join_url b (''/'' @ q) = b @ ''/'' @ q)
   \<and> (\<not> endsWith_slash b \<and> \<not> startsWith_slash q \<longrightarrow> join_url b q = b @ ''/'' @ q)
   \<and> buildUrl plain_URL ''http://x/'' ''users'' None = Inr ''http://x/users''
   \<and> buildUrl plain_URL ''http://x'' ''/users'' None = Inr ''http://x/users''
   \<and> (\<forall>u. nu (join_url base p) = Inr u \<longrightarrow> buildUrl nu base p None = Inr (url_toString u))
   \<and> (\<forall>u. nu (join_url base p) = Inr u \<and> searchParams u = [] \<and> distinct (map fst es) \<longrightarrow>
         buildUrl nu base p (Some es)
         = Inr (url_toString (u\<lparr>searchParams := defined_entries es\<rparr>)))
   \<and> (\<forall>k. distinct (map fst es) \<and> (k, None) \<in> set es \<longrightarrow> k \<notin> fst ` set (defined_entries es))
   \<and> buildUrl plain_URL ''http://x'' ''/users''
        (Some [(''page'', Some (QNum 1)), (''search'', None)])
      = Inr ''http://x/users?page=1''"
proof (intro conjI allI impI)
  show "join_url (b @ ''/'') (''/'' @ q) = b @ ''/'' @ q" by (rule join_url_both)
  show "join_url (b @ ''/'') q = b @ ''/'' @ q" if "\<not> startsWith_slash q"
    using that by (rule join_url_base_slash)
  show "join_url b (''/'' @ q) = b @ ''/'' @ q" if "\<not> endsWith_slash b"
    using that by (rule join_url_path_slash)
  show "join_url b q = b @ ''/'' @ q" if "\<not> endsWith_slash b \<and> \<not> startsWith_slash q"
    using that by (simp add: join_url_neither)
  show "buildUrl plain_URL ''http://x/'' ''users'' None = Inr ''http://x/users''"
    by (rule buildUrl_trailing_slash_example)
  show "buildUrl plain_URL ''http://x'' ''/users'' None = Inr ''http://x/users''"
    by (rule buildUrl_leading_slash_example)
  show "buildUrl nu base p None = Inr (url_toString u)" if "nu (join_url base p) = Inr u" for u
    using that by (simp add: buildUrl_def)
  show "buildUrl nu base p (Some es) = Inr (url_toString (u\<lparr>searchParams := defined_entries es\<rparr>))"
    if "nu (join_url base p) = Inr u \<and> searchParams u = [] \<and> distinct (map fst es)" for u
    using that buildUrl_query[of nu base p u es] by simp
  show "k \<notin> fst ` set (defined_entries es)"
    if "distinct (map fst es) \<and> (k, None) \<in> set es" for k
    using that undefined_key_absent[of es k] by simp
  show "buildUrl plain_URL ''http://x'' ''/users''
        (Some [(''page'', Some (QNum 1)), (''search'', None)])
      = Inr ''http://x/users?page=1''"
    by (rule buildUrl_query_example)
qed

theorem buildUrl_join_and_query_witness:
  "\<not> endsWith_slash ''https://api.example.com'' \<and> \<not> startsWith_slash ''v1/ping''
   \<and> join_url ''https://api.example.com'' ''v1/ping'' = ''https://api.example.com/v1/ping''
   \<and> join_url ''https://api.example.com/'' ''/v1/ping'' = ''https://api.example.com/v1/ping''
   \<and> buildUrl plain_URL ''https://api.example.com'' ''/v1/ping''
        (Some [(''q'', None), (''limit'', Some (QNum 10)), (''all'', Some (QBool True))])
      = Inr (url_toString \<lparr>href = ''https://api.example.com/v1/ping'',
                           searchParams = [(''limit'', ''10''), (''all'', ''true'')]\<rparr>)
   \<and> ''q'' \<notin> fst ` set (defined_entries
                          [(''q'', None), (''limit'', Some (QNum 10)), (''all'', Some (QBool True))])"
proof -
  have e: "\<not> endsWith_slash ''https://api.example.com''" by (simp add: endsWith_slash_def)
  have s: "\<not> startsWith_slash ''v1/ping''" by (simp add: startsWith_slash_def)
  have j: "join_url ''https://api.example.com'' ''/v1/ping'' = ''https://api.example.com/v1/ping''"
    by (simp add: join_url_def endsWith_slash_def startsWith_slash_def)
  have u: "plain_URL (join_url ''https://api.example.com'' ''/v1/ping'')
           = Inr \<lparr>href = ''https://api.example.com/v1/ping'', searchParams = []\<rparr>"
    by (simp add: j plain_URL_def)
  have d: "distinct (map fst [(''q'', None), (''limit'', Some (QNum 10)), (''all'', Some (QBool True))])"
    by simp
  have de: "defined_entries [(''q'', None), (''limit'', Some (QNum 10)), (''all'', Some (QBool True))]
            = [(''limit'', ''10''), (''all'', ''true'')]"
    by (simp add: show_int_def)
  note T = buildUrl_join_and_query[of "''https://api.example.com''" "''v1/ping''" plain_URL
             "''https://api.example.com''" "''/v1/ping''"
             "[(''q'', None), (''limit'', Some (QNum 10)), (''all'', Some (QBool True))]"]
  have a: "join_url ''https://api.example.com'' ''v1/ping'' = ''https://api.example.com/v1/ping''"
    using T e s by simp
  have b: "join_url ''https://api.example.com/'' ''/v1/ping'' = ''https://api.example.com/v1/ping''"
    using T by simp
  have c: "buildUrl plain_URL ''https://api.example.com'' ''/v1/ping''
        (Some [(''q'', None), (''limit'', Some (QNum 10)), (''all'', Some (QBool True))])
      = Inr (url_toString \<lparr>href = ''https://api.example.com/v1/ping'',
                           searchParams = [(''limit'', ''10''), (''all'', ''true'')]\<rparr>)"
    using T u d unfolding de by simp
  have k: "''q'' \<notin> fst ` set (defined_entries
                          [(''q'', None), (''limit'', Some (QNum 10)), (''all'', Some (QBool True))])"
    using T d by simp
  show ?thesis using e s a b c k by (intro conjI)
qed

section \<open>Properties of the service registry\<close>

subsection \<open>loadServices\<close>

lemma load_one_cases:
  "load_one e kind svcs = (if configured e kind then obj_set svcs kind (config_of e kind) else svcs)"
  by (simp add: load_one_def configured_def config_of_def split: option.splits)

lemma map_of_fold_load_one:
  "map_of (fold (load_one e) ks acc) nm =
     (if nm \<in> set ks \<and> configured e nm then Some (config_of e nm) else map_of acc nm)"
  by (induction ks arbitrary: acc) (auto simp: load_one_cases map_of_obj_set)

lemma ENV_VAR_MAP_keys_all: "nm \<in> set ENV_VAR_MAP_keys"
  by (cases nm) (simp_all add: ENV_VAR_MAP_keys_def)

lemma map_of_loadServices:
  "map_of (loadServices e) nm = (if configured e nm then Some (config_of e nm) else None)"
  by (simp add: loadServices_def map_of_fold_load_one ENV_VAR_MAP_keys_all)

lemma distinct_fold_load_one:
  "distinct (map fst acc) \<Longrightarrow> distinct (map fst (fold (load_one e) ks acc))"
  by (induction ks arbitrary: acc) (auto simp: load_one_cases distinct_obj_set)

lemma distinct_loadServices: "distinct (map fst (loadServices e))"
  by (simp add: loadServices_def distinct_fold_load_one)

lemma loadServices_entry:
  assumes "(k, c) \<in> set (loadServices e)"
  shows "c = config_of e k \<and> configured e k"
proof -
  have "map_of (loadServices e) k = Some c"
    using assms distinct_loadServices by simp
  then show ?thesis by (simp add: map_of_loadServices split: if_splits)
qed

lemma loadServices_name: "(k, c) \<in> set (loadServices e) \<Longrightarrow> name c = k"
  using loadServices_entry[of k c e] by (simp add: config_of_def)

subsection \<open>findDefaultService\<close>

lemma sort_key_Nil_iff: "sort_key f xs = [] \<longleftrightarrow> xs = []"
  by (metis length_sort length_0_conv)

lemma findDefaultService_None: "findDefaultService svcs = None \<longleftrightarrow> svcs = []"
proof (cases "sort_key priority_or_99 (map snd svcs)")
  case Nil
  then have "svcs = []" using sort_key_Nil_iff[of priority_or_99 "map snd svcs"] by simp
  then show ?thesis by (simp add: findDefaultService_def)
next
  case (Cons c cs)
  then have "svcs \<noteq> []" by auto
  then show ?thesis using Cons by (simp add: findDefaultService_def)
qed

lemma findDefaultService_Some:
  assumes "findDefaultService svcs = Some d"
  shows "\<exists>c \<in> set (map snd svcs). name c = d"
proof -
  from assms obtain c cs where sc: "sort_key priority_or_99 (map snd svcs) = c # cs" "name c = d"
    by (auto simp: findDefaultService_def split: if_splits list.splits)
  have "c \<in> set (sort_key priority_or_99 (map snd svcs))" using sc(1) by simp
  then have "c \<in> set (map snd svcs)" by simp
  then show ?thesis using sc(2) by blast
qed

lemma default_ok_loaded:
  assumes "services s = loadServices e" "defaultService s = findDefaultService (loadServices e)"
  shows "default_ok s"
proof (cases "findDefaultService (loadServices e)")
  case None
  then show ?thesis
    using findDefaultService_None[of "loadServices e"] assms by (simp add: default_ok_def)
next
  case (Some d)
  then obtain c where "c \<in> set (map snd (loadServices e))" "name c = d"
    using findDefaultService_Some by blast
  then obtain k where "(k, c) \<in> set (loadServices e)" by auto
  then have "(d, c) \<in> set (loadServices e)" using loadServices_name \<open>name c = d\<close> by blast
  then have "d \<in> set (map fst (loadServices e))" by (metis fst_conv image_eqI set_map)
  then show ?thesis using Some assms by (simp add: default_ok_def)
qed

subsection \<open>getClient\<close>

lemma getClient_cached:
  "map_of (clientCache s) nm = Some c \<Longrightarrow> getClient nm None s = (Inr c, s)"
  by (simp add: getClient_def)

lemma getClient_unconfigured:
  "map_of (clientCache s) nm = None \<or> options \<noteq> None \<Longrightarrow> map_of (services s) nm = None \<Longrightarrow>
   getClient nm options s = (Inl (Error (not_configured_message nm)), s)"
  by (auto simp: getClient_def not_configured_message_def split: option.splits)

lemma getClient_miss:
  "map_of (clientCache s) nm = None \<Longrightarrow> map_of (services s) nm = Some svc \<Longrightarrow>
   getClient nm None s =
     (Inr (createHttpClient (allocated s) (client_config svc None)),
      s\<lparr>allocated := Suc (allocated s),
        clientCache := obj_set (clientCache s) nm
                         (createHttpClient (allocated s) (client_config svc None))\<rparr>)"
  by (simp add: getClient_def Let_def)

lemma getClient_override:
  "map_of (services s) nm = Some svc \<Longrightarrow>
   getClient nm (Some ov) s =
     (Inr (createHttpClient (allocated s) (client_config svc (Some ov))),
      s\<lparr>allocated := Suc (allocated s)\<rparr>)"
  by (simp add: getClient_def Let_def split: option.splits)

lemma ident_createHttpClient: "ident (createHttpClient n cfg) = n"
  by (simp add: createHttpClient_def)

lemma createHttpClient_ident_eq:
  "createHttpClient (ident (createHttpClient n cfg)) cfg = createHttpClient n cfg"
  by (simp add: createHttpClient_def)

lemma registry_inv_getClient:
  assumes "registry_inv s"
  shows "registry_inv (snd (getClient nm options s))"
proof (cases "map_of (services s) nm")
  case None
  show ?thesis
  proof (cases "map_of (clientCache s) nm = None \<or> options \<noteq> None")
    case True
    then show ?thesis using getClient_unconfigured[OF True None] assms by simp
  next
    case False
    then obtain c where "map_of (clientCache s) nm = Some c" "options = None" by auto
    then show ?thesis using getClient_cached assms by simp
  qed
next
  case (Some svc)
  show ?thesis
  proof (cases options)
    case (Some ov)
    have "registry_inv (s\<lparr>allocated := Suc (allocated s)\<rparr>)"
      using assms
      by (auto simp: registry_inv_def default_ok_def cache_configured_def cache_current_def
          split: option.splits)
    then show ?thesis using getClient_override[OF \<open>map_of (services s) nm = Some svc\<close>] Some by simp
  next
    case None
    show ?thesis
    proof (cases "map_of (clientCache s) nm")
      case (Some c)
      then show ?thesis using getClient_cached assms None by simp
    next
      case miss: None
      let ?c = "createHttpClient (allocated s) (client_config svc None)"
      let ?s = "s\<lparr>allocated := Suc (allocated s), clientCache := obj_set (clientCache s) nm ?c\<rparr>"
      have nm_in: "nm \<in> fst ` set (services s)"
        using \<open>map_of (services s) nm = Some svc\<close> by (metis map_of_eq_None_iff option.distinct(1))
      have d: "default_ok ?s"
        using assms by (simp add: registry_inv_def default_ok_def split: option.splits)
      have cc: "cache_configured ?s"
        using assms nm_in by (simp add: registry_inv_def cache_configured_def keys_obj_set)
      have cur: "cache_current ?s"
        unfolding cache_current_def
      proof (intro ballI, clarify)
        fix k c assume kc: "(k, c) \<in> set (clientCache ?s)"
        then have "(k, c) = (nm, ?c) \<or> (k, c) \<in> set (clientCache s)"
          using in_set_obj_set[of k c "clientCache s" nm ?c] by simp
        then show "ident c < allocated ?s \<and>
           (case map_of (services ?s) k of None \<Rightarrow> False
            | Some svc \<Rightarrow> c = createHttpClient (ident c) (client_config svc None))"
        proof
          assume "(k, c) = (nm, ?c)"
          then show ?thesis using \<open>map_of (services s) nm = Some svc\<close>
            by (simp add: ident_createHttpClient)
        next
          assume "(k, c) \<in> set (clientCache s)"
          then have "ident c < allocated s \<and>
           (case map_of (services s) k of None \<Rightarrow> False
            | Some svc \<Rightarrow> c = createHttpClient (ident c) (client_config svc None))"
            using assms by (auto simp: registry_inv_def cache_current_def)
          then show ?thesis by auto
        qed
      qed
      show ?thesis
        using getClient_miss[OF miss \<open>map_of (services s) nm = Some svc\<close>] None d cc cur
        by (simp add: registry_inv_def)
    qed
  qed
qed

lemma registry_inv_new: "registry_inv (new_ServiceRegistry e)"
  using default_ok_loaded[of "new_ServiceRegistry e" e]
  by (simp add: registry_inv_def new_ServiceRegistry_def cache_configured_def cache_current_def)

lemma registry_inv_reload: "registry_inv (reload e s)"
  using default_ok_loaded[of "reload e s" e]
  by (simp add: registry_inv_def reload_def cache_configured_def cache_current_def)

lemma registry_inv_getDefaultClient:
  "registry_inv s \<Longrightarrow> registry_inv (snd (getDefaultClient options s))"
  by (simp add: getDefaultClient_def registry_inv_getClient split: option.splits)

lemma checkHealth_state:
  "fst (snd (checkHealth pf start finish nm s)) = s
   \<or> fst (snd (checkHealth pf start finish nm s)) = snd (getClient nm None s)"
  by (auto simp: checkHealth_def checkHealth_try_def split: option.splits prod.splits sum.splits)

lemma registry_inv_checkHealth:
  "registry_inv s \<Longrightarrow> registry_inv (fst (snd (checkHealth pf start finish nm s)))"
  using checkHealth_state[of pf start finish nm s] registry_inv_getClient[of s nm None] by auto

lemma registry_inv_checkAllHealth_fold:
  "registry_inv (snd acc) \<Longrightarrow>
   registry_inv (snd (fold (checkAllHealth_step pf start finish) ks acc))"
proof (induction ks arbitrary: acc)
  case Nil
  then show ?case by simp
next
  case (Cons k ks)
  have "snd (checkAllHealth_step pf start finish k acc)
        = fst (snd (checkHealth (pf k) (start k) (finish k) k (snd acc)))"
    by (simp add: checkAllHealth_step_def split: prod.splits)
  then have "registry_inv (snd (checkAllHealth_step pf start finish k acc))"
    using Cons.prems registry_inv_checkHealth by simp
  then show ?case using Cons.IH by simp
qed

lemma registry_inv_checkAllHealth:
  "registry_inv s \<Longrightarrow> registry_inv (snd (checkAllHealth pf start finish s))"
  by (simp add: checkAllHealth_def registry_inv_checkAllHealth_fold)

lemma not_configured_after_reload:
  assumes "\<not> configured e nm"
  shows "fst (getClient nm options (reload e s)) = Inl (Error (not_configured_message nm))"
proof -
  have "map_of (clientCache (reload e s)) nm = None" by (simp add: reload_def)
  moreover have "map_of (services (reload e s)) nm = None"
    using assms by (simp add: reload_def map_of_loadServices)
  ultimately show ?thesis using getClient_unconfigured[of "reload e s" nm options] by simp
qed

lemma not_configured_in_inv:
  assumes "registry_inv s" "map_of (services s) nm = None"
  shows "fst (getClient nm options s) = Inl (Error (not_configured_message nm))"
proof -
  have "nm \<notin> fst ` set (services s)" using assms(2) by (simp add: map_of_eq_None_iff)
  then have "nm \<notin> fst ` set (clientCache s)"
    using assms(1) by (auto simp: registry_inv_def cache_configured_def)
  then have "map_of (clientCache s) nm = None" by (simp add: map_of_eq_None_iff)
  then show ?thesis using getClient_unconfigured[of s nm options] assms(2) by simp
qed

lemma registry_inv_claims:
  assumes "registry_inv s"
  shows "(defaultService s = None \<longleftrightarrow> services s = [])
       \<and> (\<forall>d. defaultService s = Some d \<longrightarrow> map_of (services s) d \<noteq> None)
       \<and> (\<forall>k c. map_of (clientCache s) k = Some c \<longrightarrow> map_of (services s) k \<noteq> None)"
proof (intro conjI allI impI)
  show "defaultService s = None \<longleftrightarrow> services s = []"
    using assms by (auto simp: registry_inv_def default_ok_def split: option.splits)
  show "map_of (services s) d \<noteq> None" if "defaultService s = Some d" for d
    using assms that by (simp add: registry_inv_def default_ok_def map_of_eq_None_iff)
  show "map_of (services s) k \<noteq> None" if "map_of (clientCache s) k = Some c" for k c
  proof -
    have "k \<in> fst ` set (clientCache s)" using that by (metis map_of_eq_None_iff option.distinct(1))
    then have "k \<in> fst ` set (services s)"
      using assms by (auto simp: registry_inv_def cache_configured_def)
    then show ?thesis by (simp add: map_of_eq_None_iff)
  qed
qed

lemma getClient_services: "services (snd (getClient k ov s)) = services s"
  by (auto simp: getClient_def Let_def split: option.splits prod.splits)

lemma getClient_cache_persist:
  assumes "map_of (clientCache s) nm = Some c"
  shows "map_of (clientCache (snd (getClient k ov s))) nm = Some c"
proof (cases "k = nm")
  case True
  then show ?thesis using assms
    by (auto simp: getClient_def Let_def split: option.splits)
next
  case False
  then show ?thesis using assms
    by (auto simp: getClient_def Let_def map_of_obj_set split: option.splits)
qed

lemma getClient_calls_keeps:
  assumes "registry_inv s" "map_of (clientCache s) nm = Some c"
  shows "registry_inv (getClient_calls calls s)
       \<and> services (getClient_calls calls s) = services s
       \<and> map_of (clientCache (getClient_calls calls s)) nm = Some c"
  using assms unfolding getClient_calls_def
proof (induction calls arbitrary: s)
  case Nil
  then show ?case by simp
next
  case (Cons call calls)
  obtain k ov where call: "call = (k, ov)" by (cases call)
  let ?s = "snd (getClient k ov s)"
  have "registry_inv ?s" using Cons.prems(1) by (rule registry_inv_getClient)
  moreover have "map_of (clientCache ?s) nm = Some c"
    using Cons.prems(2) by (rule getClient_cache_persist)
  ultimately show ?case
    using Cons.IH[of ?s] call by (simp add: getClient_services)
qed

lemma cached_ident_less:
  assumes "registry_inv s" "(k, c) \<in> set (clientCache s)"
  shows "ident c < allocated s"
  using assms by (auto simp: registry_inv_def cache_current_def)

lemma cached_lookup_ident_less:
  assumes "registry_inv s" "map_of (clientCache s) k = Some c"
  shows "ident c < allocated s"
  using assms cached_ident_less map_of_SomeD by fastforce

lemma cached_lookup_current:
  assumes "registry_inv s" "map_of (clientCache s) k = Some c" "map_of (services s) k = Some svc"
  shows "c = createHttpClient (ident c) (client_config svc None)"
proof -
  have "(k, c) \<in> set (clientCache s)" using assms(2) by (rule map_of_SomeD)
  then show ?thesis using assms(1,3) by (auto simp: registry_inv_def cache_current_def)
qed

lemma getClient_first_use:
  assumes "registry_inv s" "map_of (services s) nm = Some svc"
  shows "\<exists>c s1. getClient nm None s = (Inr c, s1)
     \<and> map_of (clientCache s1) nm = Some c
     \<and> c = createHttpClient (ident c) (client_config svc None)
     \<and> (map_of (clientCache s) nm = None \<longrightarrow> ident c = allocated s)
     \<and> (\<forall>c0. map_of (clientCache s) nm = Some c0 \<longrightarrow> c = c0 \<and> s1 = s)"
proof (cases "map_of (clientCache s) nm")
  case None
  show ?thesis
    using getClient_miss[OF None assms(2)] None
    by (simp add: map_of_obj_set ident_createHttpClient createHttpClient_ident_eq)
next
  case (Some c0)
  show ?thesis
    using getClient_cached[OF Some] Some cached_lookup_current[OF assms(1) Some assms(2)]
    by simp
qed

lemma getClient_override_fresh:
  assumes "registry_inv s" "map_of (services s) nm = Some svc"
  shows "\<exists>c'. getClient nm (Some ov) s = (Inr c', s\<lparr>allocated := Suc (allocated s)\<rparr>)
      \<and> ident c' = allocated s
      \<and> c' \<notin> snd ` set (clientCache s)"
proof -
  let ?c = "createHttpClient (allocated s) (client_config svc (Some ov))"
  have "?c \<notin> snd ` set (clientCache s)"
  proof
    assume "?c \<in> snd ` set (clientCache s)"
    then obtain k where "(k, ?c) \<in> set (clientCache s)" by force
    then have "ident ?c < allocated s" using assms(1) cached_ident_less by blast
    then show False by (simp add: ident_createHttpClient)
  qed
  then show ?thesis
    using getClient_override[OF assms(2), of ov] by (simp add: ident_createHttpClient)
qed

subsection \<open>Client caching\<close>

text \<open>
  C6. In a registry that satisfies its invariant, for a configured service,
  \<open>getClient(name)\<close> without overrides returns a client that is in the cache afterwards:
  the cached one if there was one (the registry is left as it was), a newly created one
  otherwise. Every later \<open>getClient(name)\<close> without overrides returns that same
  instance, whatever other \<open>getClient\<close> calls happen in between. \<open>getClient(name,
  overrides)\<close> returns a new instance, different from the cached one, and leaves the
  cache as it was, so the new instance is in no cache entry; this holds also when the
  call with overrides comes first.
\<close>

theorem getClient_caching_identity:
  assumes inv: "registry_inv s" and conf: "map_of (services s) nm = Some svc"
  shows "\<exists>c s1. getClient nm None s = (Inr c, s1)
     \<and> map_of (clientCache s1) nm = Some c
     \<and> (map_of (clientCache s) nm = None \<longrightarrow> ident c = allocated s)
     \<and> (\<forall>c0. map_of (clientCache s) nm = Some c0 \<longrightarrow> c = c0 \<and> s1 = s)
     \<and> (\<forall>calls. getClient nm None (getClient_calls calls s1) = (Inr c, getClient_calls calls s1))
     \<and> (\<forall>calls ov. \<exists>c'.
           fst (getClient nm (Some ov) (getClient_calls calls s1)) = Inr c'
           \<and> ident c' \<noteq> ident c
           \<and> clientCache (snd (getClient nm (Some ov) (getClient_calls calls s1)))
               = clientCache (getClient_calls calls s1)
           \<and> c' \<notin> snd ` set (clientCache (getClient_calls calls s1)))
     \<and> (\<forall>ov. \<exists>c' s'. getClient nm (Some ov) s = (Inr c', s')
           \<and> clientCache s' = clientCache s
           \<and> (\<exists>c2. fst (getClient nm None s') = Inr c2 \<and> ident c2 \<noteq> ident c'))"
proof -
  from getClient_first_use[OF inv conf] obtain c s1 where
    g: "getClient nm None s = (Inr c, s1)" and
    cached: "map_of (clientCache s1) nm = Some c" and
    lazy: "map_of (clientCache s) nm = None \<longrightarrow> ident c = allocated s" and
    hit: "\<forall>c0. map_of (clientCache s) nm = Some c0 \<longrightarrow> c = c0 \<and> s1 = s"
    by (elim exE conjE)
  have inv1: "registry_inv s1" using registry_inv_getClient[OF inv, of nm None] g by simp
  have svc1: "services s1 = services s" using getClient_services[of nm None s] g by simp
  have again: "getClient nm None (getClient_calls calls s1) = (Inr c, getClient_calls calls s1)"
    for calls
    using getClient_calls_keeps[OF inv1 cached, of calls] getClient_cached by blast
  have over: "\<exists>c'. fst (getClient nm (Some ov) (getClient_calls calls s1)) = Inr c'
           \<and> ident c' \<noteq> ident c
           \<and> clientCache (snd (getClient nm (Some ov) (getClient_calls calls s1)))
               = clientCache (getClient_calls calls s1)
           \<and> c' \<notin> snd ` set (clientCache (getClient_calls calls s1))" for calls ov
  proof -
    let ?s = "getClient_calls calls s1"
    have k: "registry_inv ?s" "services ?s = services s1" "map_of (clientCache ?s) nm = Some c"
      using getClient_calls_keeps[OF inv1 cached, of calls] by simp_all
    have conf': "map_of (services ?s) nm = Some svc" using k(2) svc1 conf by simp
    from getClient_override_fresh[OF k(1) conf', of ov] obtain c' where
      c': "getClient nm (Some ov) ?s = (Inr c', ?s\<lparr>allocated := Suc (allocated ?s)\<rparr>)"
        "ident c' = allocated ?s" "c' \<notin> snd ` set (clientCache ?s)"
      by (elim exE conjE)
    have "ident c < allocated ?s" using cached_lookup_ident_less[OF k(1) k(3)] .
    then show ?thesis using c' by simp
  qed
  have first: "\<exists>c' s'. getClient nm (Some ov) s = (Inr c', s')
           \<and> clientCache s' = clientCache s
           \<and> (\<exists>c2. fst (getClient nm None s') = Inr c2 \<and> ident c2 \<noteq> ident c')" for ov
  proof -
    let ?s' = "s\<lparr>allocated := Suc (allocated s)\<rparr>"
    from getClient_override_fresh[OF inv conf, of ov] obtain c' where
      c': "getClient nm (Some ov) s = (Inr c', ?s')" "ident c' = allocated s"
      by (elim exE conjE)
    have inv': "registry_inv ?s'" using registry_inv_getClient[OF inv, of nm "Some ov"] c' by simp
    have conf': "map_of (services ?s') nm = Some svc" using conf by simp
    from getClient_first_use[OF inv' conf'] obtain c2 s2 where
      c2: "getClient nm None ?s' = (Inr c2, s2)"
        "map_of (clientCache ?s') nm = None \<longrightarrow> ident c2 = allocated ?s'"
        "\<forall>c0. map_of (clientCache ?s') nm = Some c0 \<longrightarrow> c2 = c0 \<and> s2 = ?s'"
      by (elim exE conjE)
    have "ident c2 \<noteq> ident c'"
    proof (cases "map_of (clientCache s) nm")
      case None
      then show ?thesis using c2(2) c'(2) by simp
    next
      case (Some c0)
      then have "c2 = c0" using c2(3) by simp
      then show ?thesis using cached_lookup_ident_less[OF inv Some] c'(2) by simp
    qed
    then show ?thesis using c' c2(1) by simp
  qed
  show ?thesis
  proof (intro exI[of _ c] exI[of _ s1] conjI)
    show "getClient nm None s = (Inr c, s1)" by (rule g)
    show "map_of (clientCache s1) nm = Some c" by (rule cached)
    show "map_of (clientCache s) nm = None \<longrightarrow> ident c = allocated s" by (rule lazy)
    show "\<forall>c0. map_of (clientCache s) nm = Some c0 \<longrightarrow> c = c0 \<and> s1 = s" by (rule hit)
    show "\<forall>calls. getClient nm None (getClient_calls calls s1) = (Inr c, getClient_calls calls s1)"
      by (intro allI) (rule again)
    show "\<forall>calls ov. \<exists>c'.
           fst (getClient nm (Some ov) (getClient_calls calls s1)) = Inr c'
           \<and> ident c' \<noteq> ident c
           \<and> clientCache (snd (getClient nm (Some ov) (getClient_calls calls s1)))
               = clientCache (getClient_calls calls s1)
           \<and> c' \<notin> snd ` set (clientCache (getClient_calls calls s1))"
      by (intro allI) (rule over)
    show "\<forall>ov. \<exists>c' s'. getClient nm (Some ov) s = (Inr c', s')
           \<and> clientCache s' = clientCache s
           \<and> (\<exists>c2. fst (getClient nm None s') = Inr c2 \<and> ident c2 \<noteq> ident c')"
      by (intro allI) (rule first)
  qed
qed

theorem getClient_caching_identity_witness:
  "registry_inv (new_ServiceRegistry python_only)
   \<and> map_of (services (new_ServiceRegistry python_only)) python \<noteq> None
   \<and> (\<exists>c s1. getClient python None (new_ServiceRegistry python_only) = (Inr c, s1)
        \<and> getClient python None s1 = (Inr c, s1)
        \<and> (\<exists>c'. fst (getClient python (Some (context_overrides None ''t1'')) s1) = Inr c'
               \<and> ident c' \<noteq> ident c))"
proof -
  let ?s0 = "new_ServiceRegistry python_only"
  have inv: "registry_inv ?s0" by (rule registry_inv_new)
  have conf: "map_of (services ?s0) python
     = Some \<lparr>name = python, service_baseUrl = ''http://py'', healthPath = Some ''/health'',
              priority = Some 2\<rparr>"
    by (simp add: new_ServiceRegistry_def load_python_only)
  from getClient_caching_identity[OF inv conf] obtain c s1 where
    a: "getClient python None ?s0 = (Inr c, s1)"
    and b: "\<forall>calls. getClient python None (getClient_calls calls s1) = (Inr c, getClient_calls calls s1)"
    and d: "\<forall>calls ov. \<exists>c'.
           fst (getClient python (Some ov) (getClient_calls calls s1)) = Inr c'
           \<and> ident c' \<noteq> ident c
           \<and> clientCache (snd (getClient python (Some ov) (getClient_calls calls s1)))
               = clientCache (getClient_calls calls s1)
           \<and> c' \<notin> snd ` set (clientCache (getClient_calls calls s1))"
    by (elim exE conjE)
  have nil: "getClient_calls [] s1 = s1" by (simp add: getClient_calls_def)
  have b0: "getClient python None s1 = (Inr c, s1)"
    using spec[OF b, of "[]"] unfolding nil .
  have "\<exists>c'. fst (getClient python (Some (context_overrides None ''t1'')) (getClient_calls [] s1)) = Inr c'
           \<and> ident c' \<noteq> ident c
           \<and> clientCache (snd (getClient python (Some (context_overrides None ''t1'')) (getClient_calls [] s1)))
               = clientCache (getClient_calls [] s1)
           \<and> c' \<notin> snd ` set (clientCache (getClient_calls [] s1))"
    using spec[OF spec[OF d, of "[]"], of "context_overrides None ''t1''"] .
  then have d0: "\<exists>c'. fst (getClient python (Some (context_overrides None ''t1'')) s1) = Inr c'
               \<and> ident c' \<noteq> ident c"
    unfolding nil by blast
  have conf': "map_of (services ?s0) python \<noteq> None" using conf by simp
  show ?thesis
  proof (intro conjI)
    show "registry_inv ?s0" by (rule inv)
    show "map_of (services ?s0) python \<noteq> None" by (rule conf')
    show "\<exists>c s1. getClient python None ?s0 = (Inr c, s1)
        \<and> getClient python None s1 = (Inr c, s1)
        \<and> (\<exists>c'. fst (getClient python (Some (context_overrides None ''t1'')) s1) = Inr c'
               \<and> ident c' \<noteq> ident c)"
    proof (rule exI[of _ c], rule exI[of _ s1], intro conjI)
      show "getClient python None ?s0 = (Inr c, s1)" by (rule a)
      show "getClient python None s1 = (Inr c, s1)" by (rule b0)
      show "\<exists>c'. fst (getClient python (Some (context_overrides None ''t1'')) s1) = Inr c'
               \<and> ident c' \<noteq> ident c" by (rule d0)
    qed
  qed
qed

subsection \<open>Registry invariants\<close>

text \<open>
  C7. The registry invariant holds after construction and after \<open>reload\<close> (from any
  state), and is preserved by \<open>getClient\<close>, \<open>getDefaultClient\<close>, \<open>checkHealth\<close> and
  \<open>checkAllHealth\<close>. It says that the default service name is null exactly when no
  service is configured and is a configured name otherwise, and that every cached client
  belongs to a configured service. \<open>reload\<close> empties the cache; so after a \<open>reload\<close>
  under an environment that does not configure a service, \<open>getClient\<close> for it fails,
  whatever was cached before, with the error whose message contains the name of the
  service's environment variable. The same failure occurs in every state that satisfies
  the invariant and does not configure the service.
\<close>

theorem registry_invariants:
  "registry_inv (new_ServiceRegistry e)
   \<and> registry_inv (reload e s)
   \<and> clientCache (reload e s) = []
   \<and> (registry_inv s \<longrightarrow>
        registry_inv (snd (getClient nm options s))
        \<and> registry_inv (snd (getDefaultClient options s))
        \<and> registry_inv (fst (snd (checkHealth pf start finish nm s)))
        \<and> registry_inv (snd (checkAllHealth pfs starts finishes s)))
   \<and> (registry_inv s \<longrightarrow>
        (defaultService s = None \<longleftrightarrow> services s = [])
        \<and> (\<forall>d. defaultService s = Some d \<longrightarrow> map_of (services s) d \<noteq> None)
        \<and> (\<forall>k c. map_of (clientCache s) k = Some c \<longrightarrow> map_of (services s) k \<noteq> None))
   \<and> (\<not> configured e nm \<longrightarrow>
        fst (getClient nm options (reload e s)) = Inl (Error (not_configured_message nm)))
   \<and> (registry_inv s \<and> map_of (services s) nm = None \<longrightarrow>
        fst (getClient nm options s) = Inl (Error (not_configured_message nm)))
   \<and> (\<exists>pre post. not_configured_message nm = pre @ ENV_VAR_MAP nm @ post)"
proof (intro conjI impI)
  show "registry_inv (new_ServiceRegistry e)" by (rule registry_inv_new)
  show "registry_inv (reload e s)" by (rule registry_inv_reload)
  show "clientCache (reload e s) = []" by (simp add: reload_def)
  show "registry_inv (snd (getClient nm options s))" if "registry_inv s"
    using that by (rule registry_inv_getClient)
  show "registry_inv (snd (getDefaultClient options s))" if "registry_inv s"
    using that by (rule registry_inv_getDefaultClient)
  show "registry_inv (fst (snd (checkHealth pf start finish nm s)))" if "registry_inv s"
    using that by (rule registry_inv_checkHealth)
  show "registry_inv (snd (checkAllHealth pfs starts finishes s))" if "registry_inv s"
    using that by (rule registry_inv_checkAllHealth)
  show "defaultService s = None \<longleftrightarrow> services s = []" if "registry_inv s"
    using registry_inv_claims[OF that] by blast
  show "\<forall>d. defaultService s = Some d \<longrightarrow> map_of (services s) d \<noteq> None" if "registry_inv s"
    using registry_inv_claims[OF that] by blast
  show "\<forall>k c. map_of (clientCache s) k = Some c \<longrightarrow> map_of (services s) k \<noteq> None"
    if "registry_inv s"
    using registry_inv_claims[OF that] by blast
  show "fst (getClient nm options (reload e s)) = Inl (Error (not_configured_message nm))"
    if "\<not> configured e nm"
    using that by (rule not_configured_after_reload)
  show "fst (getClient nm options s) = Inl (Error (not_configured_message nm))"
    if "registry_inv s \<and> map_of (services s) nm = None"
    using that not_configured_in_inv by blast
  show "\<exists>pre post. not_configured_message nm = pre @ ENV_VAR_MAP nm @ post"
    unfolding not_configured_message_def by (metis append.assoc)
qed

theorem registry_invariants_witness:
  "registry_inv (snd (getClient python None (new_ServiceRegistry python_only)))
   \<and> map_of (clientCache (snd (getClient python None (new_ServiceRegistry python_only)))) python \<noteq> None
   \<and> \<not> configured no_services python
   \<and> fst (getClient python None
            (reload no_services (snd (getClient python None (new_ServiceRegistry python_only)))))
      = Inl (Error ''Service \"python\" is not configured. Set HALOLIGHT_API_PYTHON_URL environment variable.'')"
proof -
  let ?s0 = "new_ServiceRegistry python_only"
  let ?s1 = "snd (getClient python None ?s0)"
  have i0: "registry_inv ?s0"
    using registry_invariants[of python_only ?s0 python None always_ok 0 0 "\<lambda>k. always_ok" "\<lambda>k. 0" "\<lambda>k. 0"]
    by blast
  have i1: "registry_inv ?s1"
    using i0 registry_invariants[of python_only ?s0 python None always_ok 0 0 "\<lambda>k. always_ok" "\<lambda>k. 0" "\<lambda>k. 0"]
    by blast
  have cached: "map_of (clientCache ?s1) python \<noteq> None"
    by (simp add: getClient_def new_ServiceRegistry_def load_python_only Let_def)
  have nc: "\<not> configured no_services python" by (simp add: configured_def no_services_def)
  have "fst (getClient python None (reload no_services ?s1))
        = Inl (Error (not_configured_message python))"
    using nc registry_invariants[of no_services ?s1 python None always_ok 0 0 "\<lambda>k. always_ok" "\<lambda>k. 0" "\<lambda>k. 0"]
    by blast
  then have e: "fst (getClient python None (reload no_services ?s1))
      = Inl (Error ''Service \"python\" is not configured. Set HALOLIGHT_API_PYTHON_URL environment variable.'')"
    by (simp add: not_configured_message_def)
  show ?thesis using i1 cached nc e by (intro conjI)
qed

subsection \<open>The default service\<close>

lemma hd_insort_key:
  "hd (insort_key f x ys) = (if ys = [] \<or> f x \<le> f (hd ys) then x else hd ys)"
  by (cases ys) auto

lemma hd_sort_key_first_min:
  fixes f :: "'a \<Rightarrow> int"
  assumes "xs \<noteq> []"
  shows "\<exists>i < length xs. hd (sort_key f xs) = xs ! i
            \<and> (\<forall>j < length xs. f (xs ! i) \<le> f (xs ! j))
            \<and> (\<forall>j < i. f (xs ! i) < f (xs ! j))"
  using assms
proof (induction xs)
  case Nil
  then show ?case by simp
next
  case (Cons x xs)
  show ?case
  proof (cases "xs = []")
    case True
    then show ?thesis by simp
  next
    case False
    from Cons.IH[OF False] obtain i where i: "i < length xs" "hd (sort_key f xs) = xs ! i"
      "\<forall>j < length xs. f (xs ! i) \<le> f (xs ! j)" "\<forall>j < i. f (xs ! i) < f (xs ! j)"
      by blast
    have ne: "sort_key f xs \<noteq> []" using False by (metis length_sort length_0_conv)
    have hd: "hd (sort_key f (x # xs)) = (if f x \<le> f (xs ! i) then x else xs ! i)"
      using ne i(2) by (simp add: hd_insort_key)
    show ?thesis
    proof (cases "f x \<le> f (xs ! i)")
      case True
      have "\<forall>j < length (x # xs). f ((x # xs) ! 0) \<le> f ((x # xs) ! j)"
      proof (intro allI impI)
        fix j assume "j < length (x # xs)"
        then show "f ((x # xs) ! 0) \<le> f ((x # xs) ! j)"
          using True i(3) by (cases j) (auto intro: order_trans)
      qed
      then show ?thesis using hd True by (intro exI[of _ 0]) simp
    next
      case F: False
      have a: "\<forall>j < length (x # xs). f ((x # xs) ! Suc i) \<le> f ((x # xs) ! j)"
      proof (intro allI impI)
        fix j assume "j < length (x # xs)"
        then show "f ((x # xs) ! Suc i) \<le> f ((x # xs) ! j)"
          using F i(3) by (cases j) auto
      qed
      have b: "\<forall>j < Suc i. f ((x # xs) ! Suc i) < f ((x # xs) ! j)"
      proof (intro allI impI)
        fix j assume "j < Suc i"
        then show "f ((x # xs) ! Suc i) < f ((x # xs) ! j)"
          using F i(4) by (cases j) auto
      qed
      show ?thesis using hd F a b i(1) by (intro exI[of _ "Suc i"]) simp
    qed
  qed
qed

lemma findDefaultService_hd:
  "svcs \<noteq> [] \<Longrightarrow> findDefaultService svcs = Some (name (hd (sort_key priority_or_99 (map snd svcs))))"
  using sort_key_Nil_iff[of priority_or_99 "map snd svcs"]
  by (cases "sort_key priority_or_99 (map snd svcs)") (simp_all add: findDefaultService_def)

lemma findDefaultService_first_min:
  assumes "svcs \<noteq> []"
  shows "\<exists>i < length svcs. findDefaultService svcs = Some (name (snd (svcs ! i)))
            \<and> (\<forall>j < length svcs. priority_or_99 (snd (svcs ! i)) \<le> priority_or_99 (snd (svcs ! j)))
            \<and> (\<forall>j < i. priority_or_99 (snd (svcs ! i)) < priority_or_99 (snd (svcs ! j)))"
proof -
  have ne: "map snd svcs \<noteq> []" using assms by simp
  from hd_sort_key_first_min[OF ne, of priority_or_99]
  obtain i where i: "i < length svcs"
    "hd (sort_key priority_or_99 (map snd svcs)) = map snd svcs ! i"
    "\<forall>j < length (map snd svcs). priority_or_99 (map snd svcs ! i) \<le> priority_or_99 (map snd svcs ! j)"
    "\<forall>j < i. priority_or_99 (map snd svcs ! i) < priority_or_99 (map snd svcs ! j)"
    by auto
  show ?thesis
    using i findDefaultService_hd[OF assms] by (intro exI[of _ i]) auto
qed

lemma load_three_services:
  "loadServices three_services =
   [(python, \<lparr>name = python, service_baseUrl = ''http://py:8000'', healthPath = Some ''/health'',
              priority = Some 2\<rparr>),
    (nestjs, \<lparr>name = nestjs, service_baseUrl = ''http://nest:3000'', healthPath = Some ''/health'',
              priority = Some 1\<rparr>),
    (go, \<lparr>name = go, service_baseUrl = ''http://go:8080'', healthPath = Some ''/health'',
              priority = Some 6\<rparr>)]"
  by (simp add: loadServices_def ENV_VAR_MAP_keys_def load_one_def three_services_def
      endsWith_slash_def slice_0_minus1_def DEFAULT_HEALTH_PATH_def)

lemma default_three_services:
  "findDefaultService (loadServices three_services) = Some nestjs"
  by (simp add: load_three_services findDefaultService_def priority_or_99_def)

lemma spec_example_default:
  "findDefaultService
     [(go, \<lparr>name = go, service_baseUrl = ''http://go'', healthPath = None, priority = Some 6\<rparr>),
      (nestjs, \<lparr>name = nestjs, service_baseUrl = ''http://nest'', healthPath = None, priority = Some 1\<rparr>),
      (python, \<lparr>name = python, service_baseUrl = ''http://py'', healthPath = None, priority = Some 2\<rparr>)]
   = Some nestjs"
  by (simp add: findDefaultService_def priority_or_99_def)

lemma getDefaultClient_three_services:
  "\<exists>c s'. getDefaultClient None (new_ServiceRegistry three_services) = (Inr c, s')
      \<and> baseUrl c = ''http://nest:3000'' \<and> getClient nestjs None s' = (Inr c, s')"
  by (simp add: getDefaultClient_def new_ServiceRegistry_def
      default_three_services[unfolded load_three_services]
      load_three_services getClient_def client_config_def createHttpClient_def Let_def)

text \<open>
  C8. With no service configured there is no default. Otherwise the default is the name
  of a service whose priority (99 when the service has none) is the least, and among the
  services of least priority it is the first in the order of the configuration map, as a
  stable ascending sort puts it first. Construction and \<open>reload\<close> derive the default in
  this way, and \<open>getDefaultClient\<close> is \<open>getClient\<close> for the default. With go at 6, nestjs
  at 1 and python at 2 the default is nestjs, and \<open>getDefaultClient\<close> returns the nestjs
  client, the same instance that \<open>getClient(nestjs)\<close> returns afterwards.
\<close>

theorem default_service_derivation:
  "findDefaultService [] = None
   \<and> (svcs \<noteq> [] \<longrightarrow>
        (\<exists>i < length svcs. findDefaultService svcs = Some (name (snd (svcs ! i)))
            \<and> (\<forall>j < length svcs. priority_or_99 (snd (svcs ! i)) \<le> priority_or_99 (snd (svcs ! j)))
            \<and> (\<forall>j < i. priority_or_99 (snd (svcs ! i)) < priority_or_99 (snd (svcs ! j)))))
   \<and> (priority c = None \<longrightarrow> priority_or_99 c = 99)
   \<and> (\<forall>p. priority c = Some p \<longrightarrow> priority_or_99 c = p)
   \<and> defaultService (new_ServiceRegistry e) = findDefaultService (services (new_ServiceRegistry e))
   \<and> defaultService (reload e s) = findDefaultService (services (reload e s))
   \<and> (\<forall>d. defaultService s = Some d \<longrightarrow> getDefaultClient options s = getClient d options s)
   \<and> findDefaultService
       [(go, \<lparr>name = go, service_baseUrl = ''http://go'', healthPath = None, priority = Some 6\<rparr>),
        (nestjs, \<lparr>name = nestjs, service_baseUrl = ''http://nest'', healthPath = None,
                  priority = Some 1\<rparr>),
        (python, \<lparr>name = python, service_baseUrl = ''http://py'', healthPath = None,
                  priority = Some 2\<rparr>)]
     = Some nestjs
   \<and> getDefaultServiceName (new_ServiceRegistry three_services) = Some nestjs
   \<and> (\<exists>c s'. getDefaultClient None (new_ServiceRegistry three_services) = (Inr c, s')
         \<and> baseUrl c = ''http://nest:3000'' \<and> getClient nestjs None s' = (Inr c, s'))"
proof (intro conjI impI allI)
  show "findDefaultService [] = None" by (simp add: findDefaultService_def)
  show "\<exists>i < length svcs. findDefaultService svcs = Some (name (snd (svcs ! i)))
            \<and> (\<forall>j < length svcs. priority_or_99 (snd (svcs ! i)) \<le> priority_or_99 (snd (svcs ! j)))
            \<and> (\<forall>j < i. priority_or_99 (snd (svcs ! i)) < priority_or_99 (snd (svcs ! j)))"
    if "svcs \<noteq> []"
    using that by (rule findDefaultService_first_min)
  show "priority_or_99 c = 99" if "priority c = None"
    using that by (simp add: priority_or_99_def)
  show "priority_or_99 c = p" if "priority c = Some p" for p
    using that by (simp add: priority_or_99_def)
  show "defaultService (new_ServiceRegistry e) = findDefaultService (services (new_ServiceRegistry e))"
    by (simp add: new_ServiceRegistry_def)
  show "defaultService (reload e s) = findDefaultService (services (reload e s))"
    by (simp add: reload_def)
  show "getDefaultClient options s = getClient d options s" if "defaultService s = Some d" for d
    using that by (simp add: getDefaultClient_def)
  show "findDefaultService
       [(go, \<lparr>name = go, service_baseUrl = ''http://go'', healthPath = None, priority = Some 6\<rparr>),
        (nestjs, \<lparr>name = nestjs, service_baseUrl = ''http://nest'', healthPath = None,
                  priority = Some 1\<rparr>),
        (python, \<lparr>name = python, service_baseUrl = ''http://py'', healthPath = None,
                  priority = Some 2\<rparr>)]
     = Some nestjs"
    by (rule spec_example_default)
  show "getDefaultServiceName (new_ServiceRegistry three_services) = Some nestjs"
    by (simp add: getDefaultServiceName_def new_ServiceRegistry_def default_three_services)
  show "\<exists>c s'. getDefaultClient None (new_ServiceRegistry three_services) = (Inr c, s')
         \<and> baseUrl c = ''http://nest:3000'' \<and> getClient nestjs None s' = (Inr c, s')"
    by (rule getDefaultClient_three_services)
qed

theorem default_service_derivation_witness:
  "tie_services \<noteq> [] \<and> findDefaultService tie_services = Some bun
   \<and> priority_or_99 (snd (tie_services ! 0)) = 99"
proof -
  have ne: "tie_services \<noteq> []" by (simp add: tie_services_def)
  have p0: "priority (snd (tie_services ! 0)) = None" by (simp add: tie_services_def)
  note T = default_service_derivation[of tie_services "snd (tie_services ! 0)" no_services
             "new_ServiceRegistry no_services" None]
  from T ne obtain i where i: "i < length tie_services"
     "findDefaultService tie_services = Some (name (snd (tie_services ! i)))"
     "\<forall>j < length tie_services.
          priority_or_99 (snd (tie_services ! i)) \<le> priority_or_99 (snd (tie_services ! j))"
     "\<forall>j < i. priority_or_99 (snd (tie_services ! i)) < priority_or_99 (snd (tie_services ! j))"
    by blast
  have len: "length tie_services = 3" by (simp add: tie_services_def)
  have pr: "priority_or_99 (snd (tie_services ! 0)) = 99"
    "priority_or_99 (snd (tie_services ! 1)) = 3" "priority_or_99 (snd (tie_services ! 2)) = 3"
    by (simp_all add: tie_services_def priority_or_99_def)
  have "i = 0 \<or> i = 1 \<or> i = 2" using i(1) len by auto
  then have "i = 1"
  proof (elim disjE)
    assume "i = 0"
    then have "priority_or_99 (snd (tie_services ! 0)) \<le> priority_or_99 (snd (tie_services ! 1))"
      using i(3) len by auto
    then show ?thesis using pr by simp
  next
    assume "i = 1" then show ?thesis .
  next
    assume "i = 2"
    then have "priority_or_99 (snd (tie_services ! 2)) < priority_or_99 (snd (tie_services ! 1))"
      using i(4) by auto
    then show ?thesis using pr by simp
  qed
  then have "findDefaultService tie_services = Some bun" using i(2) by (simp add: tie_services_def)
  moreover have "priority_or_99 (snd (tie_services ! 0)) = 99" using T p0 by blast
  ultimately show ?thesis using ne by blast
qed

subsection \<open>Health probes\<close>

lemma request_no_retries:
  assumes "retries opts = Some 0"
  shows "request pf cl opts sch =
     (case doFetch (new_URL pf) cl opts sch (fetch pf 1) of
        (Inr v, c) \<Rightarrow> (Inr v, [Attempt 1 c])
      | (Inl e, c) \<Rightarrow> (Inl (Some e), [Attempt 1 c]))"
  using assms
  by (simp add: request_def request_loop.simps[of pf cl opts sch 1 1] split: prod.splits sum.splits)

lemma health_options_fields:
  "http_method (health_options service) = Some GET"
  "timeoutMs (health_options service) = Some 3000"
  "retries (health_options service) = Some 0"
  "query (health_options service) = None"
  "headers (health_options service) = None"
  "token (health_options service) = None"
  "traceId (health_options service) = None"
  "body (health_options service) = JUndefined"
  by (simp_all add: health_options_def no_options_def)

lemma probe_doFetch:
  assumes "cl = createHttpClient i (client_config service None)"
  shows "doFetch (new_URL pf) cl (health_options service) None (fetch pf 1) = (r, c) \<Longrightarrow>
         c = probe_call pf service \<and> (probe_succeeds pf service \<longleftrightarrow> (\<exists>v. r = Inr v))"
  unfolding doFetch_def doFetch_try_def probe_call_def probe_succeeds_def doFetch_response_def
  using assms
  by (auto simp: health_options_fields createHttpClient_def client_config_def requestHeaders_def
      obj_spread_def Let_def split: sum.splits prod.splits if_splits)

lemma client_get_health:
  "client_get pf cl
     (case healthPath service of
        None \<Rightarrow> DEFAULT_HEALTH_PATH
      | Some hp \<Rightarrow> if hp \<noteq> [] then hp else DEFAULT_HEALTH_PATH)
     (no_options\<lparr>timeoutMs := Some 3000, retries := Some 0\<rparr>) None
   = request pf cl (health_options service) None"
  by (simp add: client_get_def health_options_def no_options_def)

lemma checkHealth_configured:
  assumes inv: "registry_inv s" and conf: "map_of (services s) nm = Some service"
  shows "checkHealth pf start finish nm s =
     (Inr \<lparr>healthy = probe_succeeds pf service, latencyMs = finish - start\<rparr>,
      snd (getClient nm None s), [Attempt 1 (probe_call pf service)])"
proof -
  from getClient_first_use[OF inv conf] obtain cl s1 where
    g: "getClient nm None s = (Inr cl, s1)" and
    cur: "cl = createHttpClient (ident cl) (client_config service None)"
    by (elim exE conjE)
  obtain r c where d: "doFetch (new_URL pf) cl (health_options service) None (fetch pf 1) = (r, c)"
    by (cases "doFetch (new_URL pf) cl (health_options service) None (fetch pf 1)")
  have pc: "c = probe_call pf service" and ps: "probe_succeeds pf service \<longleftrightarrow> (\<exists>v. r = Inr v)"
    using probe_doFetch[OF cur d] by simp_all
  have rq: "request pf cl (health_options service) None =
     (case r of Inr v \<Rightarrow> (Inr v, [Attempt 1 c]) | Inl e \<Rightarrow> (Inl (Some e), [Attempt 1 c]))"
    using request_no_retries[of "health_options service" pf cl None] d
    by (simp add: health_options_fields split: sum.splits)
  show ?thesis
  proof (cases r)
    case (Inl e)
    then show ?thesis
      using conf g rq pc ps
      by (simp add: checkHealth_def checkHealth_try_def client_get_health)
  next
    case (Inr v)
    then show ?thesis
      using conf g rq pc ps
      by (simp add: checkHealth_def checkHealth_try_def client_get_health)
  qed
qed

text \<open>
  C9. In a registry that satisfies its invariant, \<open>checkHealth\<close> of a configured service
  returns a result and never throws. It makes one attempt and no retry: a GET of the
  service's health path (\<open>/health\<close> when the service has none) on the service's base
  URL, with a deadline of 3000 ms. The latency is the difference of the two clock
  readings. The result is healthy exactly when the URL is built, \<open>fetch\<close> resolves, the
  body is read and the status is 2xx; an exception of \<open>fetch\<close>, a status outside 2xx
  (such as 500) and a failure to read the body all give \<open>healthy: false\<close>.
\<close>

theorem checkHealth_never_throws:
  assumes inv: "registry_inv s" and conf: "map_of (services s) nm = Some service"
  shows "checkHealth pf start finish nm s =
           (Inr \<lparr>healthy = probe_succeeds pf service, latencyMs = finish - start\<rparr>,
            snd (getClient nm None s), [Attempt 1 (probe_call pf service)])
     \<and> attempts [Attempt 1 (probe_call pf service)] = 1
     \<and> (\<forall>call. probe_call pf service = Some call \<longrightarrow>
           call_method call = GET \<and> call_deadline call = 3000
           \<and> buildUrl (new_URL pf) (service_baseUrl service)
                (case healthPath service of
                   None \<Rightarrow> ''/health''
                 | Some hp \<Rightarrow> if hp \<noteq> [] then hp else ''/health'') None = Inr (call_url call))
     \<and> (\<forall>t. fetch pf 1 = Inl t \<longrightarrow> \<not> probe_succeeds pf service)
     \<and> (\<forall>resp. fetch pf 1 = Inr resp \<and> \<not> ok resp \<longrightarrow> \<not> probe_succeeds pf service)
     \<and> (\<forall>resp t. fetch pf 1 = Inr resp \<and> read_raw resp = Inl t \<longrightarrow> \<not> probe_succeeds pf service)
     \<and> (\<forall>resp raw u. buildUrl (new_URL pf) (service_baseUrl service)
                         (path (health_options service)) None = Inr u
                      \<and> fetch pf 1 = Inr resp \<and> read_raw resp = Inr raw \<and> ok resp \<longrightarrow>
                      probe_succeeds pf service)"
proof (intro conjI allI impI)
  show "checkHealth pf start finish nm s =
           (Inr \<lparr>healthy = probe_succeeds pf service, latencyMs = finish - start\<rparr>,
            snd (getClient nm None s), [Attempt 1 (probe_call pf service)])"
    using inv conf by (rule checkHealth_configured)
  show "attempts [Attempt 1 (probe_call pf service)] = 1" by (simp add: attempts_def)
  show "call_method call = GET" if "probe_call pf service = Some call" for call
    using that by (auto simp: probe_call_def split: sum.splits)
  show "call_deadline call = 3000" if "probe_call pf service = Some call" for call
    using that by (auto simp: probe_call_def split: sum.splits)
  show "buildUrl (new_URL pf) (service_baseUrl service)
                (case healthPath service of
                   None \<Rightarrow> ''/health''
                 | Some hp \<Rightarrow> if hp \<noteq> [] then hp else ''/health'') None = Inr (call_url call)"
    if "probe_call pf service = Some call" for call
    using that
    unfolding probe_call_def health_options_def no_options_def DEFAULT_HEALTH_PATH_def
    by (auto split: sum.splits)
  show "\<not> probe_succeeds pf service" if "fetch pf 1 = Inl t" for t
    using that by (simp add: probe_succeeds_def split: sum.splits)
  show "\<not> probe_succeeds pf service" if "fetch pf 1 = Inr resp \<and> \<not> ok resp" for resp
    using that by (simp add: probe_succeeds_def split: sum.splits)
  show "\<not> probe_succeeds pf service" if "fetch pf 1 = Inr resp \<and> read_raw resp = Inl t" for resp t
    using that by (simp add: probe_succeeds_def split: sum.splits)
  show "probe_succeeds pf service"
    if "buildUrl (new_URL pf) (service_baseUrl service) (path (health_options service)) None = Inr u
        \<and> fetch pf 1 = Inr resp \<and> read_raw resp = Inr raw \<and> ok resp" for resp raw u
    using that by (simp add: probe_succeeds_def)
qed

lemma load_example_com:
  "loadServices example_com =
   [(python, \<lparr>name = python, service_baseUrl = ''https://api.example.com'',
              healthPath = Some ''/health'', priority = Some 2\<rparr>)]"
  by (simp add: loadServices_def ENV_VAR_MAP_keys_def load_one_def example_com_def
      endsWith_slash_def DEFAULT_HEALTH_PATH_def)

theorem checkHealth_never_throws_witness:
  "registry_inv (new_ServiceRegistry example_com)
   \<and> map_of (services (new_ServiceRegistry example_com)) python \<noteq> None
   \<and> fst (checkHealth always_500 1000 1042 python (new_ServiceRegistry example_com))
       = Inr \<lparr>healthy = False, latencyMs = 42\<rparr>
   \<and> snd (snd (checkHealth always_500 1000 1042 python (new_ServiceRegistry example_com)))
       = [Attempt 1 (Some \<lparr>call_url = ''https://api.example.com/health'', call_method = GET,
            call_headers =
              [(''Content-Type'', ''application/json''), (''Accept'', ''application/json'')],
            call_body = None, call_deadline = 3000\<rparr>)]"
proof -
  let ?svc = "\<lparr>name = python, service_baseUrl = ''https://api.example.com'',
              healthPath = Some ''/health'', priority = Some 2\<rparr>"
  let ?s0 = "new_ServiceRegistry example_com"
  have inv: "registry_inv ?s0" by (rule registry_inv_new)
  have conf: "map_of (services ?s0) python = Some ?svc"
    by (simp add: new_ServiceRegistry_def load_example_com)
  note T = checkHealth_never_throws[OF inv conf, of always_500 1000 1042]
  have f: "fetch always_500 1 = Inr server_error_response" by (simp add: always_500_def)
  have nok: "\<not> ok server_error_response" by (simp add: ok_def server_error_response_def)
  have ps: "\<not> probe_succeeds always_500 ?svc" using T f nok by simp
  have pc: "probe_call always_500 ?svc
     = Some \<lparr>call_url = ''https://api.example.com/health'', call_method = GET,
            call_headers =
              [(''Content-Type'', ''application/json''), (''Accept'', ''application/json'')],
            call_body = None, call_deadline = 3000\<rparr>"
    by (simp add: probe_call_def always_500_def health_options_def no_options_def
        DEFAULT_HEALTH_PATH_def buildUrl_def join_url_def plain_URL_def endsWith_slash_def
        startsWith_slash_def url_toString_def)
  have r: "checkHealth always_500 1000 1042 python ?s0 =
           (Inr \<lparr>healthy = False, latencyMs = 42\<rparr>,
            snd (getClient python None ?s0), [Attempt 1 (probe_call always_500 ?svc)])"
    using T ps by simp
  have c: "map_of (services ?s0) python \<noteq> None" using conf by simp
  show ?thesis
    unfolding r pc using inv c by simp
qed

text \<open>
  C10. \<open>checkHealth\<close> of a service that is not configured returns
  \<open>{healthy: false, latencyMs: -1}\<close>, issues no request, throws nothing and leaves the
  registry as it was.
\<close>

theorem checkHealth_unconfigured:
  "map_of (services s) nm = None \<Longrightarrow>
   checkHealth pf start finish nm s = (Inr \<lparr>healthy = False, latencyMs = - 1\<rparr>, s, [])"
  by (simp add: checkHealth_def)

theorem checkHealth_unconfigured_witness:
  "map_of (services (new_ServiceRegistry python_only)) go = None
   \<and> checkHealth always_ok 1000 1007 go (new_ServiceRegistry python_only)
      = (Inr \<lparr>healthy = False, latencyMs = - 1\<rparr>, new_ServiceRegistry python_only, [])"
proof -
  have n: "map_of (services (new_ServiceRegistry python_only)) go = None"
    by (simp add: new_ServiceRegistry_def load_python_only)
  show ?thesis using n checkHealth_unconfigured[OF n, of always_ok 1000 1007] by simp
qed

end
